theory Spec2Isabelle
  imports Main
begin

section \<open>Values and rows\<close>

text \<open>
  The backend (\<^verbatim>\<open>src/backend/server.js\<close>) works on JavaScript objects. A property that
  the code tests for truthiness, lower-cases or uses as a dictionary key is modelled by
  \<open>jsval\<close>: absent (\<open>Undefined\<close>), \<open>Null\<close>, or a string. Numbers and booleans in these
  positions are outside the model.
\<close>

datatype jsval = Undefined | Null | Str string

text \<open>JavaScript truthiness: \<^verbatim>\<open>undefined\<close>, \<^verbatim>\<open>null\<close> and the empty string are falsy.\<close>

fun truthy :: "jsval \<Rightarrow> bool" where
  "truthy Undefined = False"
| "truthy Null = False"
| "truthy (Str s) = (s \<noteq> [])"

text \<open>\<^verbatim>\<open>a || b\<close>\<close>

definition js_or :: "jsval \<Rightarrow> jsval \<Rightarrow> jsval" where
  "js_or a b = (if truthy a then a else b)"

text \<open>
  A time-carrying property, classified by what the code does with it:
  \<^verbatim>\<open>if (timeStr) { parsedTime = new Date(timeStr).getTime(); if (!isNaN(parsedTime)) ...\<close>.
  \<open>Falsy\<close>: the value fails the truthiness test; \<open>Invalid\<close>: truthy, and the date is
  \<^verbatim>\<open>NaN\<close>; \<open>Valid t\<close>: truthy, and \<^verbatim>\<open>getTime()\<close> is \<open>t\<close> milliseconds.
\<close>

datatype time_field = Falsy | Invalid | Valid int

text \<open>
  A flow row: the properties the backend reads by name, and the remaining columns as an
  opaque attribute bag. \<open>Src_IP\<close> and \<open>Dst_IP\<close> are the properties \<^verbatim>\<open>'Src IP'\<close> and
  \<^verbatim>\<open>'Dst IP'\<close>.
\<close>

record flow =
  src_ip :: jsval
  dst_ip :: jsval
  Src_IP :: jsval
  Dst_IP :: jsval
  SRC_IP :: jsval
  DST_IP :: jsval
  flow_id :: jsval
  timestamp :: time_field
  created_at :: time_field
  Timestamp :: time_field
  createdAt :: time_field
  prediction :: jsval
  analysis_id :: jsval
  original_prediction :: jsval
  features :: "(string \<times> string) list"

section \<open>Threat aggregation configuration\<close>

definition THRESHOLD_COUNT :: nat where
  "THRESHOLD_COUNT = 50"

definition THRESHOLD_WINDOW_MS :: int where
  "THRESHOLD_WINDOW_MS = 10000"

definition RULE_EXPIRATION_MINUTES :: int where
  "RULE_EXPIRATION_MINUTES = 60"

definition DIAGNOSTIC_FORCE_ATTACK :: bool where
  "DIAGNOSTIC_FORCE_ATTACK = False"

section \<open>Objects used as dictionaries\<close>

text \<open>
  \<^verbatim>\<open>RECENT_ATTACK_TRACKER\<close> and \<^verbatim>\<open>blockedIpMap\<close> are created as \<^verbatim>\<open>{}\<close> and indexed by
  address. Such an object inherits from \<^verbatim>\<open>Object.prototype\<close>: reading one of the names below
  where the object has no property of its own gives the inherited function (for
  \<^verbatim>\<open>__proto__\<close> the prototype itself), a truthy value. \<^verbatim>\<open>__proto__\<close> is an accessor: reading it
  always gives the prototype and assigning an object to it replaces the prototype, so it is
  never a property of the object's own.
\<close>

definition Object_prototype_names :: "string list" where
  "Object_prototype_names =
     [''constructor'', ''__defineGetter__'', ''__defineSetter__'', ''hasOwnProperty'',
      ''__lookupGetter__'', ''__lookupSetter__'', ''isPrototypeOf'', ''propertyIsEnumerable'',
      ''toString'', ''valueOf'', ''__proto__'', ''toLocaleString'']"

section \<open>The rule store\<close>

text \<open>
  The object \<^verbatim>\<open>ruleToInsert\<close> of \<^verbatim>\<open>manageDefenseRules\<close>; \<open>raw_flow_data\<close> is the pair
  \<^verbatim>\<open>{ trigger_flow_id, threat_count }\<close>. The column \<^verbatim>\<open>analysis_id\<close> is the field
  \<open>rule_analysis_id\<close> here, the name \<open>analysis_id\<close> being the flow's.
\<close>

record rule_to_insert =
  ip_address :: string
  threat_type :: string
  expires_at :: int
  is_active :: bool
  rule_analysis_id :: string
  raw_flow_data :: "string \<times> nat"

text \<open>
  A row of the table \<^verbatim>\<open>defense_rules\<close>: the inserted columns and \<^verbatim>\<open>created_at\<close>, which
  the database fills in (the field \<open>rule_created_at\<close>).
\<close>

record stored_rule =
  cols :: rule_to_insert
  rule_created_at :: int

text \<open>
  How a call to the store ends: it answers, it answers with an \<^verbatim>\<open>error\<close> object, or the
  awaited call raises. Which of the three happens is an input of the model.
\<close>

datatype db_fault = No_fault | Db_error string | Db_exception string

record db_env =
  select_fault :: db_fault
  insert_fault :: db_fault

text \<open>What an awaited query hands back: \<^verbatim>\<open>{ data, error }\<close>, or an exception.\<close>

datatype 'a awaited = Raised string | Returned "'a option" "string option"

text \<open>
  \<^verbatim>\<open>supabase.from('defense_rules').select('ip_address').eq('ip_address', ipAddress).limit(1)\<close>:
  no condition on \<^verbatim>\<open>is_active\<close> or \<^verbatim>\<open>expires_at\<close>.
\<close>

definition select_rules_by_ip :: "db_fault \<Rightarrow> stored_rule list \<Rightarrow> string \<Rightarrow> string list awaited" where
  "select_rules_by_ip fault store ipAddress =
     (case fault of
        Db_exception m \<Rightarrow> Raised m
      | Db_error m \<Rightarrow> Returned None (Some m)
      | No_fault \<Rightarrow>
          Returned (Some (take 1 (map (\<lambda>r. ip_address (cols r))
                                   (filter (\<lambda>r. ip_address (cols r) = ipAddress) store))))
                   None)"

text \<open>\<^verbatim>\<open>supabase.from('defense_rules').insert([ruleToInsert])\<close>, at database time \<open>now\<close>.\<close>

definition insert_rule :: "db_fault \<Rightarrow> int \<Rightarrow> stored_rule list \<Rightarrow> rule_to_insert
    \<Rightarrow> unit awaited \<times> stored_rule list" where
  "insert_rule fault now store r =
     (case fault of
        Db_exception m \<Rightarrow> (Raised m, store)
      | Db_error m \<Rightarrow> (Returned None (Some m), store)
      | No_fault \<Rightarrow> (Returned None None, store @ [\<lparr>cols = r, rule_created_at = now\<rparr>]))"

section \<open>The detection tracker\<close>

text \<open>\<^verbatim>\<open>RECENT_ATTACK_TRACKER\<close>: address to the retained detection times, in arrival order.\<close>

type_synonym tracker = "string \<rightharpoonup> int list"

text \<open>
  \<^verbatim>\<open>RECENT_ATTACK_TRACKER[ipAddress]\<close>: nothing, the array the tracker holds for the address,
  or a value inherited from \<^verbatim>\<open>Object.prototype\<close>.
\<close>

datatype tracker_entry = Absent | Own_array "int list" | Inherited

definition tracker_lookup :: "tracker \<Rightarrow> string \<Rightarrow> tracker_entry" where
  "tracker_lookup trk ipAddress =
     (if ipAddress = ''__proto__'' then Inherited
      else case trk ipAddress of
        Some ts \<Rightarrow> Own_array ts
      | None \<Rightarrow> if ipAddress \<in> set Object_prototype_names then Inherited else Absent)"

text \<open>
  Step 2 of \<^verbatim>\<open>manageDefenseRules\<close>: a missing entry starts empty, the retained times are
  filtered against the new event's time, and the new time is pushed. On an inherited value
  the entry is not initialised (the value is truthy) and \<^verbatim>\<open>.filter\<close> raises a \<^verbatim>\<open>TypeError\<close>:
  \<open>None\<close>.
\<close>

definition recentDetections :: "tracker \<Rightarrow> string \<Rightarrow> int \<Rightarrow> int list option" where
  "recentDetections trk ipAddress flowTime =
     (case tracker_lookup trk ipAddress of
        Inherited \<Rightarrow> None
      | Absent \<Rightarrow> Some ([] @ [flowTime])
      | Own_array ts \<Rightarrow>
          Some (filter (\<lambda>timestamp. flowTime - timestamp \<le> THRESHOLD_WINDOW_MS \<and> flowTime - timestamp \<ge> 0) ts
                @ [flowTime]))"

definition record_detection :: "tracker \<Rightarrow> string \<Rightarrow> int \<Rightarrow> (tracker \<times> nat) option" where
  "record_detection trk ipAddress flowTime =
     (case recentDetections trk ipAddress flowTime of
        None \<Rightarrow> None
      | Some recent \<Rightarrow> Some (trk(ipAddress \<mapsto> recent), length recent))"

text \<open>
  The sweep of \<^verbatim>\<open>setInterval\<close> (set up twice, every five minutes), at wall-clock time
  \<open>currentTime\<close>: each entry keeps the times not older than the window, and an entry left
  empty is deleted.
\<close>

definition sweep :: "int \<Rightarrow> tracker \<Rightarrow> tracker" where
  "sweep currentTime trk =
     (\<lambda>ip. case trk ip of
        None \<Rightarrow> None
      | Some ts \<Rightarrow>
          (let kept = filter (\<lambda>timestamp. currentTime - timestamp \<le> THRESHOLD_WINDOW_MS) ts
           in if length kept = 0 then None else Some kept))"

section \<open>The rule engine\<close>

text \<open>Step 1: the first time field that is truthy and parses.\<close>

fun flowTime_of :: "time_field list \<Rightarrow> int option" where
  "flowTime_of [] = None"
| "flowTime_of (Valid t # rest) = Some t"
| "flowTime_of (Falsy # rest) = flowTime_of rest"
| "flowTime_of (Invalid # rest) = flowTime_of rest"

definition timeFields :: "flow \<Rightarrow> time_field list" where
  "timeFields row = [timestamp row, created_at row, Timestamp row, createdAt row]"

text \<open>
  \<^verbatim>\<open>row.src_ip || row.dst_ip\<close>, with the guard
  \<^verbatim>\<open>!ipAddress || ipAddress === 'UNKNOWN'\<close>: the key, when there is one.
\<close>

definition ipAddress_of :: "flow \<Rightarrow> string option" where
  "ipAddress_of row =
     (case js_or (src_ip row) (dst_ip row) of
        Str s \<Rightarrow> (if s = [] \<or> s = ''UNKNOWN'' then None else Some s)
      | _ \<Rightarrow> None)"

text \<open>\<^verbatim>\<open>row.flow_id || 'N/A'\<close>\<close>

definition flowId_of :: "flow \<Rightarrow> string" where
  "flowId_of row = (case js_or (flow_id row) (Str ''N/A'') of Str s \<Rightarrow> s | _ \<Rightarrow> ''N/A'')"

text \<open>
  Each way \<^verbatim>\<open>manageDefenseRules\<close> ends. The function's boolean result is \<open>returns_true\<close>;
  \<open>Tracker_raised\<close> is the \<^verbatim>\<open>TypeError\<close> of the tracker step and \<open>Insert_raised\<close> the
  unguarded \<^verbatim>\<open>await\<close> of the insert raising: the returned promise rejects.
\<close>

datatype outcome =
    Skipped
  | Tracker_raised
  | Below_threshold
  | Check_raised
  | Check_error
  | Rule_exists
  | Rule_created rule_to_insert
  | Insert_failed rule_to_insert
  | Insert_raised rule_to_insert

fun returns_true :: "outcome \<Rightarrow> bool" where
  "returns_true (Rule_created r) = True"
| "returns_true _ = False"

text \<open>The rule handed to the store's insert, when the call got that far.\<close>

fun attempted_rule :: "outcome \<Rightarrow> rule_to_insert option" where
  "attempted_rule (Rule_created r) = Some r"
| "attempted_rule (Insert_failed r) = Some r"
| "attempted_rule (Insert_raised r) = Some r"
| "attempted_rule _ = None"

fun insert_attempted :: "outcome \<Rightarrow> bool" where
  "insert_attempted (Rule_created r) = True"
| "insert_attempted (Insert_failed r) = True"
| "insert_attempted (Insert_raised r) = True"
| "insert_attempted _ = False"

record engine_state =
  trackerOf :: tracker
  storeOf :: "stored_rule list"

text \<open>
  \<^verbatim>\<open>ruleToInsert\<close>: \<^verbatim>\<open>expires_at\<close> is
  \<^verbatim>\<open>new Date(currentTime + RULE_EXPIRATION_MINUTES * 60 * 1000)\<close>, in milliseconds.
\<close>

definition ruleToInsert :: "int \<Rightarrow> string \<Rightarrow> string \<Rightarrow> string \<Rightarrow> string \<Rightarrow> nat \<Rightarrow> rule_to_insert" where
  "ruleToInsert currentTime ipAddress prediction' jobId flowId n =
     \<lparr>ip_address = ipAddress,
      threat_type = prediction',
      expires_at = currentTime + RULE_EXPIRATION_MINUTES * 60 * 1000,
      is_active = True,
      rule_analysis_id = jobId,
      raw_flow_data = (flowId, n)\<rparr>"

text \<open>
  \<^verbatim>\<open>manageDefenseRules(supabase, row, prediction, jobId)\<close>, run to its end on the tracker and
  the store it finds: \<open>currentTime\<close> is \<^verbatim>\<open>Date.now()\<close> at the call, \<open>env\<close> says how the two
  store calls end. The tracker is written before the threshold test, so every way out but
  \<open>Skipped\<close> leaves the recorded event behind; only a successful insert deletes the key.
\<close>

definition manageDefenseRules :: "db_env \<Rightarrow> int \<Rightarrow> engine_state \<Rightarrow> flow \<Rightarrow> string \<Rightarrow> string
    \<Rightarrow> outcome \<times> engine_state" where
  "manageDefenseRules env currentTime s row prediction' jobId =
     (case (ipAddress_of row, flowTime_of (timeFields row)) of
        (Some ipAddress, Some flowTime) \<Rightarrow>
          (case record_detection (trackerOf s) ipAddress flowTime of
             None \<Rightarrow> (Tracker_raised, s)
           | Some (trk, n) \<Rightarrow>
           let s1 = s\<lparr>trackerOf := trk\<rparr>
           in if n \<ge> THRESHOLD_COUNT then
                (case select_rules_by_ip (select_fault env) (storeOf s1) ipAddress of
                   Raised m \<Rightarrow> (Check_raised, s1)
                 | Returned existingRules rulesError \<Rightarrow>
                     (if rulesError \<noteq> None then (Check_error, s1)
                      else if existingRules = None \<or> existingRules = Some [] then
                        (let r = ruleToInsert currentTime ipAddress prediction' jobId (flowId_of row) n
                         in case insert_rule (insert_fault env) currentTime (storeOf s1) r of
                              (Raised m, store') \<Rightarrow> (Insert_raised r, s1\<lparr>storeOf := store'\<rparr>)
                            | (Returned d insertError, store') \<Rightarrow>
                                (if insertError = None
                                 then (Rule_created r,
                                       s1\<lparr>trackerOf := (trackerOf s1)(ipAddress := None),
                                          storeOf := store'\<rparr>)
                                 else (Insert_failed r, s1\<lparr>storeOf := store'\<rparr>)))
                      else (Rule_exists, s1)))
              else (Below_threshold, s1))
      | _ \<Rightarrow> (Skipped, s))"

subsection \<open>The calls on the event loop\<close>

text \<open>
  \<^verbatim>\<open>manageDefenseRules\<close> is \<^verbatim>\<open>async\<close>, and both endpoints call it inside \<^verbatim>\<open>batch.map\<close> without
  \<^verbatim>\<open>await\<close>. A call runs to its first \<^verbatim>\<open>await\<close>; what follows runs once the store has
  answered, after whatever the event loop has run in between: the calls for the later rows,
  the continuations of other calls, the two \<^verbatim>\<open>setInterval\<close> sweeps. A suspended call is the
  local variables it still reads (\<open>pending\<close>) and the place where it waits: its query sent,
  its query answered, its insert sent, its insert answered.
\<close>

record pending =
  envOf :: db_env
  currentTimeOf :: int
  ipAddressOf :: string
  flowIdOf :: string
  predictionOf :: string
  jobIdOf :: string
  countOf :: nat

datatype call_state =
    Ended outcome
  | Select_sent pending
  | Select_answered pending "string list awaited"
  | Insert_sent pending
  | Insert_answered pending "unit awaited"

text \<open>The \<^verbatim>\<open>ruleToInsert\<close> of a suspended call.\<close>

definition pending_rule :: "pending \<Rightarrow> rule_to_insert" where
  "pending_rule l =
     ruleToInsert (currentTimeOf l) (ipAddressOf l) (predictionOf l) (jobIdOf l) (flowIdOf l) (countOf l)"

text \<open>
  The call up to its first \<^verbatim>\<open>await\<close>: the guard, the record step and the threshold test; at
  the threshold the existence query is sent.
\<close>

definition begin_call :: "db_env \<Rightarrow> int \<Rightarrow> engine_state \<Rightarrow> flow \<Rightarrow> string \<Rightarrow> string
    \<Rightarrow> call_state \<times> engine_state" where
  "begin_call env currentTime s row prediction' jobId =
     (case (ipAddress_of row, flowTime_of (timeFields row)) of
        (Some ipAddress, Some flowTime) \<Rightarrow>
          (case record_detection (trackerOf s) ipAddress flowTime of
             None \<Rightarrow> (Ended Tracker_raised, s)
           | Some (trk, n) \<Rightarrow>
               let s1 = s\<lparr>trackerOf := trk\<rparr>
               in if n \<ge> THRESHOLD_COUNT then
                    (Select_sent \<lparr>envOf = env, currentTimeOf = currentTime, ipAddressOf = ipAddress,
                                  flowIdOf = flowId_of row, predictionOf = prediction', jobIdOf = jobId,
                                  countOf = n\<rparr>, s1)
                  else (Ended Below_threshold, s1))
      | _ \<Rightarrow> (Ended Skipped, s))"

text \<open>
  The store executes what a call has sent, on the table as it is at that moment: the query
  is answered, the insert is made (or fails, as the call's \<open>db_env\<close> says).
\<close>

fun store_executes :: "call_state \<Rightarrow> engine_state \<Rightarrow> call_state \<times> engine_state" where
  "store_executes (Select_sent l) s =
     (Select_answered l (select_rules_by_ip (select_fault (envOf l)) (storeOf s) (ipAddressOf l)), s)"
| "store_executes (Insert_sent l) s =
     (case insert_rule (insert_fault (envOf l)) (currentTimeOf l) (storeOf s) (pending_rule l) of
        (answer, store') \<Rightarrow> (Insert_answered l answer, s\<lparr>storeOf := store'\<rparr>))"
| "store_executes c s = (c, s)"

text \<open>
  The continuation after an answer: after the query's, the two error exits, the skip, or
  the insert sent; after the insert's, \<^verbatim>\<open>delete RECENT_ATTACK_TRACKER[ipAddress]\<close> and \<^verbatim>\<open>true\<close>,
  or the failure.
\<close>

fun resumes :: "call_state \<Rightarrow> engine_state \<Rightarrow> call_state \<times> engine_state" where
  "resumes (Select_answered l (Raised m)) s = (Ended Check_raised, s)"
| "resumes (Select_answered l (Returned existingRules rulesError)) s =
     (if rulesError \<noteq> None then (Ended Check_error, s)
      else if existingRules = None \<or> existingRules = Some [] then (Insert_sent l, s)
      else (Ended Rule_exists, s))"
| "resumes (Insert_answered l (Raised m)) s = (Ended (Insert_raised (pending_rule l)), s)"
| "resumes (Insert_answered l (Returned d insertError)) s =
     (if insertError = None
      then (Ended (Rule_created (pending_rule l)),
            s\<lparr>trackerOf := (trackerOf s)(ipAddressOf l := None)\<rparr>)
      else (Ended (Insert_failed (pending_rule l)), s))"
| "resumes c s = (c, s)"

text \<open>
  What the event loop runs, one step at a time, each to its end: a call of
  \<^verbatim>\<open>manageDefenseRules\<close> up to its first \<^verbatim>\<open>await\<close>, the store executing what the \<open>k\<close>-th
  call has sent, the \<open>k\<close>-th call resuming, a sweep at clock time \<open>currentTime\<close>. A schedule is
  any sequence of steps; a step naming a call that does not wait for it changes nothing.
\<close>

datatype step =
    Call db_env int flow string string
  | Store_executes nat
  | Resumes nat
  | Sweep int

record loop_state =
  engineOf :: engine_state
  callsOf :: "call_state list"

fun run_step :: "loop_state \<Rightarrow> step \<Rightarrow> loop_state" where
  "run_step s (Call env currentTime row prediction' jobId) =
     (case begin_call env currentTime (engineOf s) row prediction' jobId of
        (c, e) \<Rightarrow> \<lparr>engineOf = e, callsOf = callsOf s @ [c]\<rparr>)"
| "run_step s (Store_executes k) =
     (if k < length (callsOf s)
      then case store_executes (callsOf s ! k) (engineOf s) of
             (c, e) \<Rightarrow> \<lparr>engineOf = e, callsOf = (callsOf s)[k := c]\<rparr>
      else s)"
| "run_step s (Resumes k) =
     (if k < length (callsOf s)
      then case resumes (callsOf s ! k) (engineOf s) of
             (c, e) \<Rightarrow> \<lparr>engineOf = e, callsOf = (callsOf s)[k := c]\<rparr>
      else s)"
| "run_step s (Sweep currentTime) =
     s\<lparr>engineOf := (engineOf s)\<lparr>trackerOf := sweep currentTime (trackerOf (engineOf s))\<rparr>\<rparr>"

definition run_schedule :: "loop_state \<Rightarrow> step list \<Rightarrow> loop_state" where
  "run_schedule s steps = foldl run_step s steps"

section \<open>Batches\<close>

text \<open>\<^verbatim>\<open>const BATCH_SIZE = 100\<close>, in each endpoint.\<close>

definition BATCH_SIZE :: nat where
  "BATCH_SIZE = 100"

text \<open>
  The batch loop of the three endpoints:
  \<^verbatim>\<open>for (let i = 0; i < rows.length; i += BATCH_SIZE) { const batch = rows.slice(i, i + BATCH_SIZE); ... results.push(...) }\<close>.
  The loop body \<open>body i batch\<close> gives what is pushed for the batch starting at \<open>i\<close>.
\<close>

function batch_loop :: "(nat \<Rightarrow> 'a list \<Rightarrow> 'b list) \<Rightarrow> nat \<Rightarrow> 'a list \<Rightarrow> 'b list" where
  "batch_loop body i rows =
     (if i < length rows
      then body i (take BATCH_SIZE (drop i rows)) @ batch_loop body (i + BATCH_SIZE) rows
      else [])"
  by pat_completeness auto

termination
  by (relation "measure (\<lambda>(body, i, rows). length rows - i)") (auto simp: BATCH_SIZE_def)

declare batch_loop.simps [simp del]

text \<open>
  The prediction gateway (\<^verbatim>\<open>axios.post(MODEL_API_URL_BATCH, batchForModel)\<close>), called for the
  batch starting at \<open>i\<close>: \<open>None\<close> when the call raises or the response carries no
  \<^verbatim>\<open>predictions\<close> (reading an index of \<^verbatim>\<open>undefined\<close> raises inside the same \<^verbatim>\<open>try\<close>),
  else the array of labels.
\<close>

type_synonym gateway = "nat \<Rightarrow> flow list \<Rightarrow> jsval list option"

text \<open>\<^verbatim>\<open>predictions[index] || 'Error'\<close>: an index past the end reads \<^verbatim>\<open>undefined\<close>.\<close>

definition prediction_or_Error :: "jsval list \<Rightarrow> nat \<Rightarrow> string" where
  "prediction_or_Error predictions index =
     (case js_or (if index < length predictions then predictions ! index else Undefined) (Str ''Error'') of
        Str s \<Rightarrow> s
      | _ \<Rightarrow> ''Error'')"

section \<open>Ingestion: \<^verbatim>\<open>POST /analyze/csv\<close> and \<^verbatim>\<open>POST /analyze/api\<close>\<close>

text \<open>
  The callback of \<^verbatim>\<open>batch.map((row, index) => ...)\<close>, the same in both endpoints: the row
  with its label, and the call of \<^verbatim>\<open>manageDefenseRules(supabase, row, prediction, jobId)\<close>
  it makes, if any.
\<close>

definition rowWithPrediction :: "string \<Rightarrow> jsval list \<Rightarrow> nat \<Rightarrow> flow \<Rightarrow> flow \<times> (flow \<times> string \<times> string) option" where
  "rowWithPrediction jobId predictions index row =
     (let prediction0 = prediction_or_Error predictions index;
          prediction' = (if DIAGNOSTIC_FORCE_ATTACK \<and> index = 0 then ''Forced_DDoS_Test'' else prediction0)
      in (row\<lparr>prediction := Str prediction', analysis_id := Str jobId\<rparr>,
          if prediction' \<noteq> ''benign'' \<and> prediction' \<noteq> ''Error''
          then Some (row, prediction', jobId) else None))"

text \<open>The \<^verbatim>\<open>catch\<close> of a batch: \<^verbatim>\<open>{ ...row, prediction: 'Error', analysis_id: jobId }\<close>.\<close>

definition errorBatch :: "string \<Rightarrow> flow list \<Rightarrow> (flow \<times> (flow \<times> string \<times> string) option) list" where
  "errorBatch jobId batch = map (\<lambda>row. (row\<lparr>prediction := Str ''Error'', analysis_id := Str jobId\<rparr>, None)) batch"

text \<open>
  What each endpoint strips before the gateway call:
  \<^verbatim>\<open>batch.map(({ Timestamp, timestamp, ...rest }) => rest)\<close> in the CSV endpoint,
  \<^verbatim>\<open>batch.map(({ created_at, ...rest }) => rest)\<close> in the API endpoint.
\<close>

datatype endpoint = Analyze_csv | Analyze_api

fun batchForModel :: "endpoint \<Rightarrow> flow \<Rightarrow> flow" where
  "batchForModel Analyze_csv row = row\<lparr>Timestamp := Falsy, timestamp := Falsy\<rparr>"
| "batchForModel Analyze_api row = row\<lparr>created_at := Falsy\<rparr>"

text \<open>The body of the batch loop, the same in both endpoints but for \<open>batchForModel\<close>.\<close>

definition analyze_batch :: "endpoint \<Rightarrow> gateway \<Rightarrow> string \<Rightarrow> nat \<Rightarrow> flow list
    \<Rightarrow> (flow \<times> (flow \<times> string \<times> string) option) list" where
  "analyze_batch ep gw jobId i batch =
     (case gw i (map (batchForModel ep) batch) of
        Some predictions \<Rightarrow> map (\<lambda>(index, row). rowWithPrediction jobId predictions index row)
                               (enumerate 0 batch)
      | None \<Rightarrow> errorBatch jobId batch)"

text \<open>
  All batches of an upload: per row, the labelled row (\<^verbatim>\<open>resultsWithPredictions\<close>) and the
  rule evaluation it was submitted to, if any.
\<close>

definition analyze_rows :: "endpoint \<Rightarrow> gateway \<Rightarrow> string \<Rightarrow> flow list
    \<Rightarrow> (flow \<times> (flow \<times> string \<times> string) option) list" where
  "analyze_rows ep gw jobId rows = batch_loop (analyze_batch ep gw jobId) 0 rows"

definition resultsWithPredictions :: "(flow \<times> (flow \<times> string \<times> string) option) list \<Rightarrow> flow list" where
  "resultsWithPredictions rs = map fst rs"

definition rule_evaluations :: "(flow \<times> (flow \<times> string \<times> string) option) list
    \<Rightarrow> (flow \<times> string \<times> string) list" where
  "rule_evaluations rs = List.map_filter snd rs"

section \<open>Reanalysis: \<^verbatim>\<open>POST /reanalyze/rules\<close>\<close>

text \<open>
  \<^verbatim>\<open>getAnalysisResultsByJobId\<close> (\<^verbatim>\<open>db-functions.js\<close>): the job's rows of
  \<^verbatim>\<open>analysis_results\<close> in \<^verbatim>\<open>created_at\<close> order (\<open>stored\<close>), \<^verbatim>\<open>null\<close> on a query error.
  \<open>Inl\<close> is the awaited call raising.
\<close>

definition getAnalysisResultsByJobId :: "db_fault \<Rightarrow> flow list \<Rightarrow> string + flow list option" where
  "getAnalysisResultsByJobId fault stored =
     (case fault of
        Db_exception m \<Rightarrow> Inl m
      | Db_error m \<Rightarrow> Inr None
      | No_fault \<Rightarrow> Inr (Some stored))"

text \<open>
  \<^verbatim>\<open>supabase.from('defense_rules').select('ip_address, created_at, expires_at')
  .eq('is_active', true).gt('expires_at', new Date().toISOString())\<close>; the handler reads only
  \<^verbatim>\<open>data\<close>, which is \<^verbatim>\<open>null\<close> on a query error.
\<close>

definition select_active_rules :: "db_fault \<Rightarrow> int \<Rightarrow> stored_rule list \<Rightarrow> string + stored_rule list option" where
  "select_active_rules fault now store =
     (case fault of
        Db_exception m \<Rightarrow> Inl m
      | Db_error m \<Rightarrow> Inr None
      | No_fault \<Rightarrow> Inr (Some (filter (\<lambda>r. is_active (cols r) = True \<and> expires_at (cols r) > now) store)))"

text \<open>
  The object \<^verbatim>\<open>blockedIpMap\<close>: the properties of its own, each a rule's
  \<^verbatim>\<open>{ created_at, expires_at }\<close> (two times in milliseconds), and the rule data that has
  replaced its prototype, if any (\<open>None\<close>: the prototype is \<^verbatim>\<open>Object.prototype\<close>, as for
  \<^verbatim>\<open>{}\<close>). A replacing object is itself a plain object, so what \<^verbatim>\<open>Object.prototype\<close> gives
  stays inherited.
\<close>

record ip_map =
  own_rules :: "string \<rightharpoonup> int \<times> int"
  prototype_rule :: "(int \<times> int) option"

definition empty_object :: ip_map where
  "empty_object = \<lparr>own_rules = Map.empty, prototype_rule = None\<rparr>"

text \<open>
  \<^verbatim>\<open>blockedIpMap[key] = ruleData\<close>: a property of its own, written over an earlier one; for the
  key \<^verbatim>\<open>__proto__\<close> the prototype is replaced instead.
\<close>

definition assign_rule :: "string \<Rightarrow> int \<times> int \<Rightarrow> ip_map \<Rightarrow> ip_map" where
  "assign_rule key ruleData m =
     (if key = ''__proto__'' then m\<lparr>prototype_rule := Some ruleData\<rparr>
      else m\<lparr>own_rules := (own_rules m)(key \<mapsto> ruleData)\<rparr>)"

text \<open>
  \<^verbatim>\<open>blockedIpMap[key]\<close>: the own property, else what the prototype chain gives: the number
  \<^verbatim>\<open>created_at\<close> or \<^verbatim>\<open>expires_at\<close> of a replacing rule data, a member of
  \<^verbatim>\<open>Object.prototype\<close>, or \<^verbatim>\<open>undefined\<close> (\<open>Not_found\<close>). Reading \<^verbatim>\<open>__proto__\<close> gives the
  prototype.
\<close>

datatype property_value = Not_found | Rule_data "int \<times> int" | Number int | Prototype_member

definition read_property :: "ip_map \<Rightarrow> string \<Rightarrow> property_value" where
  "read_property m key =
     (if key = ''__proto__''
      then (case prototype_rule m of Some ruleData \<Rightarrow> Rule_data ruleData | None \<Rightarrow> Prototype_member)
      else case own_rules m key of
        Some ruleData \<Rightarrow> Rule_data ruleData
      | None \<Rightarrow>
          (case (if key = ''created_at'' then map_option fst (prototype_rule m)
                 else if key = ''expires_at'' then map_option snd (prototype_rule m)
                 else None) of
             Some n \<Rightarrow> Number n
           | None \<Rightarrow> if key \<in> set Object_prototype_names then Prototype_member else Not_found))"

text \<open>Truthiness of what a read gives: objects and functions are truthy, a number unless it is 0.\<close>

fun truthy_property :: "property_value \<Rightarrow> bool" where
  "truthy_property Not_found = False"
| "truthy_property (Rule_data ruleData) = True"
| "truthy_property (Number n) = (n \<noteq> 0)"
| "truthy_property Prototype_member = True"

text \<open>
  \<^verbatim>\<open>const blockedIpMap = {}; if (activeRules) activeRules.forEach(rule => { ... })\<close>: each
  fetched rule's data is assigned under the rule's address.
\<close>

definition blockedIpMap :: "stored_rule list option \<Rightarrow> ip_map" where
  "blockedIpMap activeRules =
     (case activeRules of
        None \<Rightarrow> empty_object
      | Some rules \<Rightarrow>
          fold (\<lambda>rule m. assign_rule (ip_address (cols rule))
                            (rule_created_at rule, expires_at (cols rule)) m)
               rules empty_object)"

text \<open>The property name a value is turned into when it indexes an object.\<close>

fun property_key :: "jsval \<Rightarrow> string" where
  "property_key Undefined = ''undefined''"
| "property_key Null = ''null''"
| "property_key (Str s) = s"

text \<open>
  \<^verbatim>\<open>toLowerCase()\<close> on the letters A to Z; every other character is kept. (No character
  outside A to Z lower-cases to a letter of \<^verbatim>\<open>benign\<close> or \<^verbatim>\<open>error\<close>.)
\<close>

definition toLowerCase_char :: "char \<Rightarrow> char" where
  "toLowerCase_char c =
     (case map_of (zip ''ABCDEFGHIJKLMNOPQRSTUVWXYZ'' ''abcdefghijklmnopqrstuvwxyz'') c of
        Some l \<Rightarrow> l
      | None \<Rightarrow> c)"

definition toLowerCase :: "string \<Rightarrow> string" where
  "toLowerCase s = map toLowerCase_char s"

text \<open>\<^verbatim>\<open>row.prediction ? row.prediction.toLowerCase() : 'error'\<close>\<close>

definition originalPrediction :: "flow \<Rightarrow> string" where
  "originalPrediction row =
     (if truthy (prediction row)
      then (case prediction row of Str s \<Rightarrow> toLowerCase s | _ \<Rightarrow> ''error'')
      else ''error'')"

text \<open>
  The test of the filter loop. \<^verbatim>\<open>historicalFlowTime\<close> is computed from \<^verbatim>\<open>row.created_at\<close>
  and never read; \<^verbatim>\<open>ruleWasActiveAtFlowTime\<close> is the constant \<^verbatim>\<open>true\<close>.
\<close>

definition isBlockedByPolicy :: "ip_map \<Rightarrow> flow \<Rightarrow> bool" where
  "isBlockedByPolicy ipMap row =
     (let srcIpRule = read_property ipMap (property_key (src_ip row));
          dstIpRule = read_property ipMap (property_key (dst_ip row));
          ruleData = (if truthy_property srcIpRule then srcIpRule else dstIpRule);
          ruleWasActiveAtFlowTime = True
      in truthy_property ruleData \<and> ruleWasActiveAtFlowTime
         \<and> originalPrediction row \<noteq> ''benign'' \<and> originalPrediction row \<noteq> ''error'')"

text \<open>
  Step 4, \<^verbatim>\<open>historicalResults.forEach\<close>: the pair (\<^verbatim>\<open>flowsToReanalyze\<close>, \<^verbatim>\<open>blockedFlows\<close>), each
  grown by \<^verbatim>\<open>push\<close>.
\<close>

definition filter_step :: "ip_map \<Rightarrow> flow \<Rightarrow> flow list \<times> flow list \<Rightarrow> flow list \<times> flow list" where
  "filter_step ipMap row acc =
     (case acc of (flowsToReanalyze, blockedFlows) \<Rightarrow>
        if isBlockedByPolicy ipMap row
        then (flowsToReanalyze, blockedFlows @ [row\<lparr>prediction := Str ''Rule_Blocked_Historical''\<rparr>])
        else (flowsToReanalyze @ [row], blockedFlows))"

definition filter_rows :: "ip_map \<Rightarrow> flow list \<Rightarrow> flow list \<times> flow list" where
  "filter_rows ipMap historicalResults = fold (filter_step ipMap) historicalResults ([], [])"

text \<open>
  Step 5, the body of the re-prediction loop. The gateway gets the batch without
  \<^verbatim>\<open>prediction\<close> and \<^verbatim>\<open>analysis_id\<close>; on a failure each row keeps its label.
\<close>

definition rePredict_batch :: "gateway \<Rightarrow> nat \<Rightarrow> flow list \<Rightarrow> flow list" where
  "rePredict_batch gw i batch =
     (case gw i (map (\<lambda>row. row\<lparr>prediction := Undefined, analysis_id := Undefined\<rparr>) batch) of
        Some predictions \<Rightarrow>
          map (\<lambda>(index, row). row\<lparr>original_prediction := prediction row,
                                    prediction := Str (prediction_or_Error predictions index)\<rparr>)
              (enumerate 0 batch)
      | None \<Rightarrow> map (\<lambda>row. row\<lparr>original_prediction := prediction row, prediction := prediction row\<rparr>) batch)"

definition rePredictionResults :: "gateway \<Rightarrow> flow list \<Rightarrow> flow list" where
  "rePredictionResults gw flowsToReanalyze = batch_loop (rePredict_batch gw) 0 flowsToReanalyze"

subsection \<open>Summaries and the response\<close>

text \<open>
  \<^verbatim>\<open>acc[key] = (acc[key] || 0) + 1\<close> over an object whose entries are read back in insertion
  order (as they are for labels that are not written like an array index).
\<close>

fun count_label :: "string \<Rightarrow> (string \<times> nat) list \<Rightarrow> (string \<times> nat) list" where
  "count_label key [] = [(key, 1)]"
| "count_label key ((k, n) # acc) =
     (if k = key then (k, n + 1) # acc else (k, n) # count_label key acc)"

text \<open>\<^verbatim>\<open>a ?? b\<close>: \<open>b\<close> when \<open>a\<close> is \<^verbatim>\<open>null\<close> or \<^verbatim>\<open>undefined\<close>.\<close>

definition nullish_or :: "jsval \<Rightarrow> jsval \<Rightarrow> jsval" where
  "nullish_or a b = (case a of Undefined \<Rightarrow> b | Null \<Rightarrow> b | Str s \<Rightarrow> a)"

text \<open>\<^verbatim>\<open>a || b\<close> where \<open>b\<close> is a string literal: always a string.\<close>

definition or_literal :: "jsval \<Rightarrow> string \<Rightarrow> string" where
  "or_literal a b = (case js_or a (Str b) of Str s \<Rightarrow> s | _ \<Rightarrow> b)"

text \<open>
  \<^verbatim>\<open>transformBlockedData\<close> (\<^verbatim>\<open>analysis-transformer.js\<close>): the count, the breakdown by
  \<^verbatim>\<open>original_prediction || prediction || 'Unknown Block'\<close>, and of the first five rows the
  source, the destination and the label. Its \<^verbatim>\<open>getKey(row, key)\<close> is
  \<^verbatim>\<open>row[key] ?? row[key.replace(/_cnt$/, '_count')] ?? row[key.toUpperCase()]\<close>; the
  replacement leaves \<^verbatim>\<open>src_ip\<close> and \<^verbatim>\<open>dst_ip\<close> as they are. Port and protocol are left out.
\<close>

record blocked_summary =
  blockedCount :: nat
  blocked_threatBreakdown :: "(string \<times> nat) list"
  blocked_recentFlows :: "(string \<times> string \<times> jsval) list"

definition transformBlockedData :: "flow list \<Rightarrow> blocked_summary" where
  "transformBlockedData blockedRows =
     \<lparr>blockedCount = length blockedRows,
      blocked_threatBreakdown =
        fold (\<lambda>row acc. count_label
                (or_literal (js_or (original_prediction row) (prediction row)) ''Unknown Block'') acc)
             blockedRows [],
      blocked_recentFlows =
        map (\<lambda>r. (or_literal (nullish_or (nullish_or (src_ip r) (src_ip r)) (SRC_IP r)) ''N/A'',
                   or_literal (nullish_or (nullish_or (dst_ip r) (dst_ip r)) (DST_IP r)) ''N/A'',
                   prediction r))
            (take 5 blockedRows)\<rparr>"

text \<open>
  \<^verbatim>\<open>transformPredictionData\<close>: \<open>None\<close> is the object of empty parts it returns for no
  rows. Of the dashboard: the breakdown of the rows counted as malicious by
  \<^verbatim>\<open>prediction || 'Unknown Attack'\<close>, and of the first five of them the source, the
  destination and the label, read with \<^verbatim>\<open>getKey(row, key_snake, key_pascal)\<close>, which is
  \<^verbatim>\<open>row[key_snake] ?? row[key_pascal]\<close>. The aggregates computed in floating point or formatted by
  locale, and port and protocol, are left out.
\<close>

definition getPrediction :: "flow \<Rightarrow> string" where
  "getPrediction row =
     toLowerCase (or_literal (js_or (prediction row) (original_prediction row)) ''unknown'')"

definition maliciousRows :: "flow list \<Rightarrow> flow list" where
  "maliciousRows rows =
     filter (\<lambda>r. getPrediction r \<noteq> ''benign'' \<and> getPrediction r \<noteq> ''error''
                 \<and> getPrediction r \<noteq> ''rule_override_blocked'') rows"

record dashboard_summary =
  threatBreakdown :: "(string \<times> nat) list"
  recentFlows :: "(string \<times> string \<times> jsval) list"

definition transformPredictionData :: "flow list \<Rightarrow> dashboard_summary option" where
  "transformPredictionData rows =
     (if length rows = 0 then None
      else Some
        \<lparr>threatBreakdown =
           fold (\<lambda>row acc. count_label (or_literal (prediction row) ''Unknown Attack'') acc)
                (maliciousRows rows) [],
         recentFlows =
           map (\<lambda>r. (or_literal (nullish_or (src_ip r) (Src_IP r)) ''N/A'',
                      or_literal (nullish_or (dst_ip r) (Dst_IP r)) ''N/A'',
                      prediction r))
               (take 5 (maliciousRows rows))\<rparr>)"

text \<open>The JSON bodies of \<^verbatim>\<open>POST /reanalyze/rules\<close>, by status.\<close>

record reanalysis_payload =
  finalDashboardData :: "dashboard_summary option"
  payload_analysis_id :: string
  original_flow_count :: nat
  reanalyzed_flow_count :: nat
  blockedData :: blocked_summary

datatype response =
    Bad_request_400
  | Not_found_404
  | Server_error_500 string
  | All_filtered string
  | Reanalyzed reanalysis_payload

text \<open>
  The handler: 400 without an \<^verbatim>\<open>analysis_id\<close>, 404 when the read gives \<^verbatim>\<open>null\<close> or no row,
  the message \<^verbatim>\<open>All flows were filtered by active rules.\<close> when no row is left to
  re-predict, else the payload; 500 when an awaited store call raises.
\<close>

definition reanalyze :: "db_fault \<Rightarrow> db_fault \<Rightarrow> gateway \<Rightarrow> int \<Rightarrow> stored_rule list \<Rightarrow> flow list \<Rightarrow> jsval
    \<Rightarrow> response" where
  "reanalyze flows_fault rules_fault gw now store stored analysis_id' =
     (case analysis_id' of
        Str job \<Rightarrow>
          (if job = [] then Bad_request_400
           else case getAnalysisResultsByJobId flows_fault stored of
             Inl m \<Rightarrow> Server_error_500 m
           | Inr None \<Rightarrow> Not_found_404
           | Inr (Some historicalResults) \<Rightarrow>
               (if length historicalResults = 0 then Not_found_404
                else case select_active_rules rules_fault now store of
                  Inl m \<Rightarrow> Server_error_500 m
                | Inr activeRules \<Rightarrow>
                    (case filter_rows (blockedIpMap activeRules) historicalResults of
                       (flowsToReanalyze, blockedFlows) \<Rightarrow>
                         if length flowsToReanalyze = 0 then All_filtered job
                         else Reanalyzed
                           \<lparr>finalDashboardData =
                              transformPredictionData (rePredictionResults gw flowsToReanalyze),
                            payload_analysis_id = job,
                            original_flow_count = length historicalResults,
                            reanalyzed_flow_count = length (rePredictionResults gw flowsToReanalyze),
                            blockedData = transformBlockedData blockedFlows\<rparr>)))
      | _ \<Rightarrow> Bad_request_400)"

fun payload_of :: "response \<Rightarrow> reanalysis_payload option" where
  "payload_of (Reanalyzed p) = Some p"
| "payload_of _ = None"

section \<open>Vocabulary of the properties\<close>

text \<open>The times retained under a key; a key without an entry retains none.\<close>

definition retained :: "tracker \<Rightarrow> string \<Rightarrow> int list" where
  "retained trk ip = (case trk ip of None \<Rightarrow> [] | Some ts \<Rightarrow> ts)"

text \<open>The store holds a rule for the key, of whatever status.\<close>

definition has_rule_for :: "stored_rule list \<Rightarrow> string \<Rightarrow> bool" where
  "has_rule_for store ip = list_ex (\<lambda>r. ip_address (cols r) = ip) store"


text \<open>
  A burst within the window: every event lies in the trailing window of every later one,
  \<open>0 \<le> later - earlier \<le> THRESHOLD_WINDOW_MS\<close>.
\<close>

fun within_window :: "int list \<Rightarrow> bool" where
  "within_window [] = True"
| "within_window (t # ts) =
     (list_all (\<lambda>u. 0 \<le> u - t \<and> u - t \<le> THRESHOLD_WINDOW_MS) ts \<and> within_window ts)"

text \<open>
  Of a schedule and a key: the times of the events recorded for the key (the calls whose
  row resolves to the key and has a parseable time), in arrival order; whether every sweep
  of the schedule keeps the given times.
\<close>

fun event_time :: "string \<Rightarrow> step \<Rightarrow> int option" where
  "event_time ip (Call env currentTime row prediction' jobId) =
     (if ipAddress_of row = Some ip then flowTime_of (timeFields row) else None)"
| "event_time ip st = None"

definition event_times :: "string \<Rightarrow> step list \<Rightarrow> int list" where
  "event_times ip steps = List.map_filter (event_time ip) steps"



text \<open>
  The rules handed to the store's insert for a key so far, by calls ended or suspended;
  the rows the store holds for a key; the state in which no call is suspended.
\<close>

fun sent_rule :: "call_state \<Rightarrow> rule_to_insert option" where
  "sent_rule (Ended out) = attempted_rule out"
| "sent_rule (Insert_sent l) = Some (pending_rule l)"
| "sent_rule (Insert_answered l answer) = Some (pending_rule l)"
| "sent_rule c = None"

definition inserts_sent :: "string \<Rightarrow> loop_state \<Rightarrow> rule_to_insert list" where
  "inserts_sent ip s = filter (\<lambda>r. ip_address r = ip) (List.map_filter sent_rule (callsOf s))"

fun pending_key :: "call_state \<Rightarrow> string option" where
  "pending_key (Ended out) = None"
| "pending_key (Select_sent l) = Some (ipAddressOf l)"
| "pending_key (Select_answered l answer) = Some (ipAddressOf l)"
| "pending_key (Insert_sent l) = Some (ipAddressOf l)"
| "pending_key (Insert_answered l answer) = Some (ipAddressOf l)"

definition all_ended :: "loop_state \<Rightarrow> bool" where
  "all_ended s = list_all (\<lambda>c. pending_key c = None) (callsOf s)"

definition rules_for :: "string \<Rightarrow> stored_rule list \<Rightarrow> stored_rule list" where
  "rules_for ip store = filter (\<lambda>r. ip_address (cols r) = ip) store"




text \<open>The claim's wording of the partition test, over the rule table and the clock.\<close>

definition active_rule_for :: "int \<Rightarrow> stored_rule list \<Rightarrow> jsval \<Rightarrow> bool" where
  "active_rule_for now store ip =
     (\<exists>r \<in> set store. is_active (cols r) \<and> now < expires_at (cols r)
                       \<and> ip_address (cols r) = property_key ip)"

definition blocked_by_current_rules :: "int \<Rightarrow> stored_rule list \<Rightarrow> flow \<Rightarrow> bool" where
  "blocked_by_current_rules now store row =
     ((active_rule_for now store (src_ip row) \<or> active_rule_for now store (dst_ip row))
      \<and> originalPrediction row \<noteq> ''benign'' \<and> originalPrediction row \<noteq> ''error'')"

text \<open>
  The names under which the rule map can give a value it does not own: the members of
  \<^verbatim>\<open>Object.prototype\<close> and the two properties of a rule's data. An address is ordinary when
  it is none of them.
\<close>

definition inheritable_names :: "string list" where
  "inheritable_names = Object_prototype_names @ [''created_at'', ''expires_at'']"

definition ordinary_address :: "jsval \<Rightarrow> bool" where
  "ordinary_address ip = (property_key ip \<notin> set inheritable_names)"

definition ordinary_addresses :: "flow \<Rightarrow> bool" where
  "ordinary_addresses row = (ordinary_address (src_ip row) \<and> ordinary_address (dst_ip row))"

text \<open>A row as it is pushed to \<^verbatim>\<open>blockedFlows\<close>.\<close>

definition policy_blocked :: "flow \<Rightarrow> flow" where
  "policy_blocked row = row\<lparr>prediction := Str ''Rule_Blocked_Historical''\<rparr>"

text \<open>A row of a failed re-prediction batch, and a row without its two labels.\<close>

definition keeps_prior_label :: "flow \<Rightarrow> flow" where
  "keeps_prior_label row = row\<lparr>original_prediction := prediction row, prediction := prediction row\<rparr>"

definition unlabelled :: "flow \<Rightarrow> flow" where
  "unlabelled row = row\<lparr>prediction := Undefined, original_prediction := Undefined\<rparr>"

text \<open>Every way of writing a word with each letter in either case.\<close>

definition toUpperCase_char :: "char \<Rightarrow> char" where
  "toUpperCase_char c =
     (case map_of (zip ''abcdefghijklmnopqrstuvwxyz'' ''ABCDEFGHIJKLMNOPQRSTUVWXYZ'') c of
        Some u \<Rightarrow> u
      | None \<Rightarrow> c)"

fun casings :: "string \<Rightarrow> string list" where
  "casings [] = [Nil]"
| "casings (c # cs) = concat (map (\<lambda>rest. [c # rest, toUpperCase_char c # rest]) (casings cs))"

section \<open>Example inputs\<close>

text \<open>
  A flow from \<^verbatim>\<open>10.0.0.5\<close> at time \<open>t\<close>; a tracker holding 49 detections of that address,
  0.1 s apart; a tracker with stale, recent and future times; rules; store behaviours.
\<close>

definition example_row :: "int \<Rightarrow> flow" where
  "example_row t = \<lparr>src_ip = Str ''10.0.0.5'', dst_ip = Str ''10.0.0.9'',
     Src_IP = Undefined, Dst_IP = Undefined, SRC_IP = Undefined, DST_IP = Undefined,
     flow_id = Str ''f50'',
     timestamp = Valid t, created_at = Falsy, Timestamp = Falsy, createdAt = Falsy,
     prediction = Undefined, analysis_id = Undefined, original_prediction = Undefined,
     features = []\<rparr>"

definition constructor_row :: flow where
  "constructor_row = (example_row 1000)\<lparr>src_ip := Str ''constructor''\<rparr>"


definition sparse_tracker :: tracker where
  "sparse_tracker = [''10.0.0.5'' \<mapsto> [1000, 9000, 30000, 12000]]"

definition expired_rule :: stored_rule where
  "expired_rule = \<lparr>cols = \<lparr>ip_address = ''10.0.0.5'', threat_type = ''DDoS'', expires_at = 1000,
      is_active = False, rule_analysis_id = ''job0'', raw_flow_data = (''f1'', 50)\<rparr>,
      rule_created_at = 0\<rparr>"

definition other_rule :: stored_rule where
  "other_rule = \<lparr>cols = \<lparr>ip_address = ''192.168.1.7'', threat_type = ''PortScan'', expires_at = 9000000,
      is_active = True, rule_analysis_id = ''job0'', raw_flow_data = (''f2'', 50)\<rparr>,
      rule_created_at = 5400000\<rparr>"

definition no_faults :: db_env where
  "no_faults = \<lparr>select_fault = No_fault, insert_fault = No_fault\<rparr>"




definition fresh_state :: engine_state where
  "fresh_state = \<lparr>trackerOf = Map.empty, storeOf = []\<rparr>"

text \<open>
  An event loop with nothing in flight; the detections of \<^verbatim>\<open>10.0.0.5\<close> at 0.1 s to 4.9 s, in
  time order, alone and with a sweep and a call for another address in between; the steps
  that take the \<open>k\<close>-th call to its end.
\<close>

definition fresh_loop :: loop_state where
  "fresh_loop = \<lparr>engineOf = fresh_state, callsOf = []\<rparr>"

definition burst_call :: "int \<Rightarrow> step" where
  "burst_call t = Call no_faults 7000 (example_row t) ''DDoS'' ''job1''"





text \<open>
  Sixty detections of \<^verbatim>\<open>10.0.0.5\<close>, 0.1 s apart, as one batch calls them; the store's
  answers to the calls \<open>ks\<close>, each followed by the call's continuation.
\<close>

definition batch_of_sixty :: "step list" where
  "batch_of_sixty = map (\<lambda>k. burst_call (100 * int k)) [1..<61]"

definition answers :: "nat list \<Rightarrow> step list" where
  "answers ks = concat (map (\<lambda>k. [Store_executes k, Resumes k]) ks)"

text \<open>Stored flows of a job, gateways, and an upload of three rows.\<close>

definition history_flow :: "string \<Rightarrow> string \<Rightarrow> jsval \<Rightarrow> flow" where
  "history_flow src dst label = \<lparr>src_ip = Str src, dst_ip = Str dst,
     Src_IP = Undefined, Dst_IP = Undefined, SRC_IP = Undefined, DST_IP = Undefined,
     flow_id = Undefined,
     timestamp = Falsy, created_at = Valid 100, Timestamp = Falsy, createdAt = Falsy,
     prediction = label, analysis_id = Str ''job1'', original_prediction = Undefined,
     features = []\<rparr>"

definition history :: "flow list" where
  "history = [history_flow ''192.168.1.7'' ''10.0.0.1'' (Str ''DDoS''),
              history_flow ''192.168.1.7'' ''10.0.0.1'' (Str ''Benign''),
              history_flow ''10.0.0.5'' ''10.0.0.1'' (Str ''DDoS''),
              history_flow ''10.0.0.1'' ''192.168.1.7'' Null]"

definition all_blocked_history :: "flow list" where
  "all_blocked_history = [history_flow ''192.168.1.7'' ''10.0.0.1'' (Str ''DDoS'')]"

definition labelling_gateway :: gateway where
  "labelling_gateway i batch = Some (replicate (length batch) (Str ''benign''))"

definition admitted_flows :: "flow list" where
  "admitted_flows = map (\<lambda>k. history_flow ''10.0.0.1'' ''10.0.0.2'' (if even k then Str ''DDoS'' else Null)) [0..<150]"

definition first_batch_fails :: gateway where
  "first_batch_fails i batch = (if i = 0 then None else Some (replicate (length batch) (Str ''benign'')))"

definition upload :: "flow list" where
  "upload = [example_row 0, example_row 100, example_row 200]"

definition short_gateway :: gateway where
  "short_gateway i batch = Some [Str ''DDoS'', Null]"

section \<open>The rule engine, one equation per way through it\<close>

lemma select_rules_by_ip_ok:
  "select_rules_by_ip No_fault store ip =
     Returned (Some (if has_rule_for store ip then [ip] else [])) None"
proof -
  have "map (\<lambda>r. ip_address (cols r)) (filter (\<lambda>r. ip_address (cols r) = ip) store)
        = replicate (length (filter (\<lambda>r. ip_address (cols r) = ip) store)) ip"
    by (induction store) auto
  moreover have "has_rule_for store ip = (filter (\<lambda>r. ip_address (cols r) = ip) store \<noteq> [])"
    by (auto simp: has_rule_for_def list_ex_iff filter_empty_conv)
  ultimately show ?thesis
    by (cases "filter (\<lambda>r. ip_address (cols r) = ip) store") (auto simp: select_rules_by_ip_def)
qed

lemma recentDetections_None: "(recentDetections trk ip t = None) = (tracker_lookup trk ip = Inherited)"
  by (simp add: recentDetections_def split: tracker_entry.splits)

lemma recentDetections_Some:
  "tracker_lookup trk ip \<noteq> Inherited \<Longrightarrow>
   recentDetections trk ip t =
     Some (filter (\<lambda>u. 0 \<le> t - u \<and> t - u \<le> THRESHOLD_WINDOW_MS) (retained trk ip) @ [t])"
  by (auto simp: recentDetections_def retained_def tracker_lookup_def
      split: tracker_entry.splits option.splits if_splits intro: filter_cong)

lemma record_detection_None: "(record_detection trk ip t = None) = (tracker_lookup trk ip = Inherited)"
  using recentDetections_None [of trk ip t]
  by (cases "recentDetections trk ip t") (simp_all add: record_detection_def)

lemma record_detection_Some:
  "record_detection trk ip t = Some (trk1, n) \<Longrightarrow>
   tracker_lookup trk ip \<noteq> Inherited
   \<and> trk1 = trk(ip \<mapsto> filter (\<lambda>u. 0 \<le> t - u \<and> t - u \<le> THRESHOLD_WINDOW_MS) (retained trk ip) @ [t])
   \<and> n = Suc (length (filter (\<lambda>u. 0 \<le> t - u \<and> t - u \<le> THRESHOLD_WINDOW_MS) (retained trk ip)))"
proof -
  assume r: "record_detection trk ip t = Some (trk1, n)"
  then have ni: "tracker_lookup trk ip \<noteq> Inherited"
    using record_detection_None [of trk ip t] by auto
  show ?thesis
    using r ni by (auto simp: record_detection_def recentDetections_Some [OF ni])
qed

lemma record_detection_ordinary:
  "tracker_lookup trk ip \<noteq> Inherited \<Longrightarrow>
   record_detection trk ip t =
     Some (trk(ip \<mapsto> filter (\<lambda>u. 0 \<le> t - u \<and> t - u \<le> THRESHOLD_WINDOW_MS) (retained trk ip) @ [t]),
           Suc (length (filter (\<lambda>u. 0 \<le> t - u \<and> t - u \<le> THRESHOLD_WINDOW_MS) (retained trk ip))))"
  by (simp add: record_detection_def recentDetections_Some)


lemma engine_unresolved:
  "ipAddress_of row = None \<or> flowTime_of (timeFields row) = None \<Longrightarrow>
   manageDefenseRules env now s row p j = (Skipped, s)"
  by (auto simp: manageDefenseRules_def split: option.splits)

lemma engine_raised:
  "ipAddress_of row = Some ip \<Longrightarrow> flowTime_of (timeFields row) = Some t \<Longrightarrow>
   record_detection (trackerOf s) ip t = None \<Longrightarrow>
   manageDefenseRules env now s row p j = (Tracker_raised, s)"
  by (simp add: manageDefenseRules_def)

lemma engine_below:
  "ipAddress_of row = Some ip \<Longrightarrow> flowTime_of (timeFields row) = Some t \<Longrightarrow>
   record_detection (trackerOf s) ip t = Some (trk1, n) \<Longrightarrow> n < THRESHOLD_COUNT \<Longrightarrow>
   manageDefenseRules env now s row p j = (Below_threshold, s\<lparr>trackerOf := trk1\<rparr>)"
  by (simp add: manageDefenseRules_def)



lemma engine_insert:
  "ipAddress_of row = Some ip \<Longrightarrow> flowTime_of (timeFields row) = Some t \<Longrightarrow>
   record_detection (trackerOf s) ip t = Some (trk1, n) \<Longrightarrow> THRESHOLD_COUNT \<le> n \<Longrightarrow>
   select_fault env = No_fault \<Longrightarrow> \<not> has_rule_for (storeOf s) ip \<Longrightarrow>
   r = ruleToInsert now ip p j (flowId_of row) n \<Longrightarrow>
   manageDefenseRules env now s row p j =
     (case insert_fault env of
        No_fault \<Rightarrow> (Rule_created r,
                     s\<lparr>trackerOf := trk1(ip := None),
                        storeOf := storeOf s @ [\<lparr>cols = r, rule_created_at = now\<rparr>]\<rparr>)
      | Db_error m \<Rightarrow> (Insert_failed r, s\<lparr>trackerOf := trk1\<rparr>)
      | Db_exception m \<Rightarrow> (Insert_raised r, s\<lparr>trackerOf := trk1\<rparr>))"
  by (cases "insert_fault env")
     (simp_all add: manageDefenseRules_def select_rules_by_ip_ok insert_rule_def Let_def)

lemma insert_attempted_iff: "insert_attempted out = (attempted_rule out \<noteq> None)"
  by (cases out) simp_all

lemma example_row_key: "ipAddress_of (example_row t) = Some ''10.0.0.5''"
  by (simp add: example_row_def ipAddress_of_def js_or_def)


lemma example_row_time: "flowTime_of (timeFields (example_row t)) = Some t"
  by (simp add: example_row_def timeFields_def)



lemma recent_all_kept:
  assumes "tracker_lookup trk ip \<noteq> Inherited"
    and "retained trk ip = prev"
    and "list_all (\<lambda>p. 0 \<le> t - p \<and> t - p \<le> THRESHOLD_WINDOW_MS) prev"
  shows "record_detection trk ip t = Some (trk(ip \<mapsto> prev @ [t]), Suc (length prev))"
  using assms by (simp add: record_detection_ordinary list_all_iff)

subsection \<open>The window of the tracker\<close>

text \<open>
  For a key whose lookup in the tracker does not give an inherited value, the record step
  leaves under the key the previously retained times \<open>t\<close> with
  \<open>0 \<le> flowTime - t \<le> THRESHOLD_WINDOW_MS\<close>, in their order, followed by the new time, and
  returns the length of that sequence; it is the count the engine compares with
  \<open>THRESHOLD_COUNT\<close>, and the tracker is left so by every call that does not create a rule.
\<close>

lemma record_keeps_window:
  assumes "ipAddress_of row = Some ip"
    and "flowTime_of (timeFields row) = Some t"
    and "tracker_lookup (trackerOf s) ip \<noteq> Inherited"
  shows "\<exists>trk1 n. record_detection (trackerOf s) ip t = Some (trk1, n)
       \<and> trk1 ip = Some (filter (\<lambda>u. 0 \<le> t - u \<and> t - u \<le> THRESHOLD_WINDOW_MS) (retained (trackerOf s) ip) @ [t])
       \<and> set (retained trk1 ip) =
           insert t {u \<in> set (retained (trackerOf s) ip). 0 \<le> t - u \<and> t - u \<le> THRESHOLD_WINDOW_MS}
       \<and> n = length (retained trk1 ip)
       \<and> (fst (manageDefenseRules env now s row p j) = Below_threshold) = (n < THRESHOLD_COUNT)
       \<and> (returns_true (fst (manageDefenseRules env now s row p j)) \<or>
            trackerOf (snd (manageDefenseRules env now s row p j)) = trk1)"
proof -
  let ?kept = "filter (\<lambda>u. 0 \<le> t - u \<and> t - u \<le> THRESHOLD_WINDOW_MS) (retained (trackerOf s) ip)"
  let ?trk1 = "(trackerOf s)(ip \<mapsto> ?kept @ [t])"
  have r: "record_detection (trackerOf s) ip t = Some (?trk1, Suc (length ?kept))"
    using assms(3) by (rule record_detection_ordinary)
  have d: "(fst (manageDefenseRules env now s row p j) = Below_threshold)
        = (Suc (length ?kept) < THRESHOLD_COUNT)"
    using assms(1,2) r
    by (auto simp: manageDefenseRules_def select_rules_by_ip_def insert_rule_def Let_def
        split: db_fault.splits)
  have e: "returns_true (fst (manageDefenseRules env now s row p j)) \<or>
        trackerOf (snd (manageDefenseRules env now s row p j)) = ?trk1"
    using assms(1,2) r
    by (auto simp: manageDefenseRules_def select_rules_by_ip_def insert_rule_def Let_def
        split: db_fault.splits)
  show ?thesis
    using r d e by (auto simp: retained_def)
qed

text \<open>Of the times 1 s, 9 s, 30 s and 12 s, an event at 20 s keeps the last alone.\<close>

lemma record_keeps_window_example:
  "record_detection sparse_tracker ''10.0.0.5'' 20000
     = Some (sparse_tracker(''10.0.0.5'' \<mapsto> [12000, 20000]), 2)
   \<and> fst (manageDefenseRules no_faults 0 \<lparr>trackerOf = sparse_tracker, storeOf = []\<rparr>
             (example_row 20000) ''DDoS'' ''job1'') = Below_threshold"
proof -
  have l: "tracker_lookup (trackerOf \<lparr>trackerOf = sparse_tracker, storeOf = []\<rparr>) ''10.0.0.5'' \<noteq> Inherited"
    by (simp add: tracker_lookup_def sparse_tracker_def)
  obtain trk1 n where r: "record_detection sparse_tracker ''10.0.0.5'' 20000 = Some (trk1, n)"
    and e: "trk1 ''10.0.0.5'' = Some [12000, 20000]"
    and n: "n = length (retained trk1 ''10.0.0.5'')"
    and b: "(fst (manageDefenseRules no_faults 0 \<lparr>trackerOf = sparse_tracker, storeOf = []\<rparr>
             (example_row 20000) ''DDoS'' ''job1'') = Below_threshold) = (n < THRESHOLD_COUNT)"
    using record_keeps_window [of "example_row 20000" "''10.0.0.5''" 20000
        "\<lparr>trackerOf = sparse_tracker, storeOf = []\<rparr>" no_faults 0 "''DDoS''" "''job1''",
        OF example_row_key example_row_time l]
    by (auto simp: sparse_tracker_def retained_def THRESHOLD_WINDOW_MS_def)
  have "record_detection sparse_tracker ''10.0.0.5'' 20000
     = Some (sparse_tracker(''10.0.0.5'' \<mapsto> [12000, 20000]), 2)"
    using record_detection_Some [OF r] r
    by (simp add: sparse_tracker_def retained_def THRESHOLD_WINDOW_MS_def)
  then show ?thesis
    using r n b e by (simp add: retained_def THRESHOLD_COUNT_def)
qed

text \<open>
  Claim C7, at an input where the code departs from it. A flow whose source address is
  \<^verbatim>\<open>constructor\<close> has a resolved key and a parseable time; the tracker, though it holds
  nothing for the key, answers the lookup with the inherited \<^verbatim>\<open>Object\<close> function, the entry
  is not initialised, \<^verbatim>\<open>.filter\<close> raises, and the call ends with nothing recorded: the key
  has no sequence and no count is returned.
\<close>

theorem inherited_key_is_not_recorded:
  "ipAddress_of constructor_row = Some ''constructor''
   \<and> flowTime_of (timeFields constructor_row) = Some 1000
   \<and> tracker_lookup (trackerOf fresh_state) ''constructor'' = Inherited
   \<and> record_detection (trackerOf fresh_state) ''constructor'' 1000 = None
   \<and> manageDefenseRules no_faults 0 fresh_state constructor_row ''DDoS'' ''job1''
       = (Tracker_raised, fresh_state)
   \<and> trackerOf (snd (manageDefenseRules no_faults 0 fresh_state constructor_row ''DDoS'' ''job1''))
        ''constructor'' = None"
proof -
  have k: "ipAddress_of constructor_row = Some ''constructor''"
    by (simp add: constructor_row_def example_row_def ipAddress_of_def js_or_def)
  have t: "flowTime_of (timeFields constructor_row) = Some 1000"
    by (simp add: constructor_row_def example_row_def timeFields_def)
  have l: "tracker_lookup (trackerOf fresh_state) ''constructor'' = Inherited"
    by (simp add: tracker_lookup_def fresh_state_def Object_prototype_names_def)
  then have r: "record_detection (trackerOf fresh_state) ''constructor'' 1000 = None"
    by (simp add: record_detection_None)
  show ?thesis
    using k t l r engine_raised [OF k t r] by (simp add: fresh_state_def)
qed

subsection \<open>The tracker after an insert or a failure\<close>



text \<open>
  The evidence kept after a failed insert: the next event of the key that has the retained
  times in its window meets the threshold again and, the check answering, the insert is
  attempted again.
\<close>

lemma failed_insert_is_retried:
  assumes "ipAddress_of row = Some ip"
    and "flowTime_of (timeFields row) = Some t"
    and "record_detection (trackerOf s) ip t = Some (trk1, n)" and "THRESHOLD_COUNT \<le> n"
    and "select_fault env = No_fault" and "\<not> has_rule_for (storeOf s) ip"
    and "insert_fault env \<noteq> No_fault"
    and "manageDefenseRules env now s row p j = (out, s1)"
    and "ipAddress_of row2 = Some ip"
    and "flowTime_of (timeFields row2) = Some t2"
    and "list_all (\<lambda>u. 0 \<le> t2 - u \<and> t2 - u \<le> THRESHOLD_WINDOW_MS) (retained (trackerOf s1) ip)"
    and "select_fault env2 = No_fault"
  shows "insert_attempted (fst (manageDefenseRules env2 now2 s1 row2 p2 j2))"
proof -
  have s1: "s1 = s\<lparr>trackerOf := trk1\<rparr>"
    using engine_insert [OF assms(1,2,3,4,5,6) refl, of now p j] assms(7,8)
    by (cases "insert_fault env") auto
  note rd = record_detection_Some [OF assms(3)]
  have own: "trk1 ip = Some (retained trk1 ip)" and len: "n = length (retained trk1 ip)"
    using rd by (simp_all add: retained_def)
  have ip: "ip \<noteq> ''__proto__''"
    using rd by (auto simp: tracker_lookup_def)
  have ni: "tracker_lookup (trackerOf s1) ip \<noteq> Inherited"
    using own ip s1 by (simp add: tracker_lookup_def)
  have r2: "record_detection (trackerOf s1) ip t2
      = Some ((trackerOf s1)(ip \<mapsto> retained (trackerOf s1) ip @ [t2]), Suc (length (retained (trackerOf s1) ip)))"
    using ni refl assms(11) by (rule recent_all_kept)
  have met: "THRESHOLD_COUNT \<le> Suc (length (retained (trackerOf s1) ip))"
    using assms(4) len s1 by simp
  have norule: "\<not> has_rule_for (storeOf s1) ip" using assms(6) s1 by simp
  show ?thesis
    using engine_insert [OF assms(9,10) r2 met assms(12) norule refl, of now2 p2 j2]
    by (cases "insert_fault env2") simp_all
qed

subsection \<open>An existing rule, active or not\<close>




section \<open>A burst on the event loop\<close>

text \<open>A call that nothing interrupts is \<^verbatim>\<open>manageDefenseRules\<close> run to its end.\<close>

lemma uninterrupted_call:
  "run_schedule \<lparr>engineOf = s, callsOf = cs\<rparr>
     [Call env now row p j, Store_executes (length cs), Resumes (length cs),
      Store_executes (length cs), Resumes (length cs)]
   = \<lparr>engineOf = snd (manageDefenseRules env now s row p j),
      callsOf = cs @ [Ended (fst (manageDefenseRules env now s row p j))]\<rparr>"
  by (auto simp: run_schedule_def begin_call_def manageDefenseRules_def Let_def
      select_rules_by_ip_def insert_rule_def pending_rule_def
      split: option.splits db_fault.splits list.splits)

lemma pending_rule_key [simp]: "ip_address (pending_rule l) = ipAddressOf l"
  by (simp add: pending_rule_def ruleToInsert_def)

lemma run_schedule_Nil [simp]: "run_schedule s [] = s"
  by (simp add: run_schedule_def)

lemma run_schedule_Cons [simp]: "run_schedule s (st # steps) = run_schedule (run_step s st) steps"
  by (simp add: run_schedule_def)


lemma event_times_Nil [simp]: "event_times ip [] = []"
  by (simp add: event_times_def map_filter_simps)


lemma rules_for_append [simp]: "rules_for ip (xs @ ys) = rules_for ip xs @ rules_for ip ys"
  by (simp add: rules_for_def)




























text \<open>
  More than \<open>THRESHOLD_COUNT\<close> events in one batch: the calls are not awaited, so the
  fiftieth to the sixtieth each meet the threshold before any answer has come back, each
  finds no rule, and eleven rules are inserted.
\<close>

lemma unawaited_calls_insert_eleven_rules:
  "length (event_times ''10.0.0.5'' batch_of_sixty) = 60
   \<and> within_window (event_times ''10.0.0.5'' batch_of_sixty)
   \<and> all_ended (run_schedule fresh_loop (batch_of_sixty @ answers [49..<60] @ answers [49..<60]))
   \<and> length (inserts_sent ''10.0.0.5''
        (run_schedule fresh_loop (batch_of_sixty @ answers [49..<60] @ answers [49..<60]))) = 11
   \<and> length (storeOf (engineOf
        (run_schedule fresh_loop (batch_of_sixty @ answers [49..<60] @ answers [49..<60])))) = 11"
  by code_simp

section \<open>The batch loop\<close>

lemma batch_loop_step:
  "i < length rows \<Longrightarrow>
   batch_loop body i rows = body i (take BATCH_SIZE (drop i rows)) @ batch_loop body (i + BATCH_SIZE) rows"
  by (subst batch_loop.simps) simp

lemma batch_loop_done: "\<not> i < length rows \<Longrightarrow> batch_loop body i rows = []"
  by (subst batch_loop.simps) simp

lemma batch_loop_length:
  assumes len: "\<And>i b. length (body i b) = length b"
  shows "length (batch_loop body i rows) = length rows - i"
proof (induction "length rows - i" arbitrary: i rule: less_induct)
  case less
  show ?case
  proof (cases "i < length rows")
    case True
    have "length rows - (i + BATCH_SIZE) < length rows - i"
      using True by (simp add: BATCH_SIZE_def)
    then have "length (batch_loop body (i + BATCH_SIZE) rows) = length rows - (i + BATCH_SIZE)"
      by (rule less)
    then show ?thesis
      using True by (simp add: batch_loop_step len)
  next
    case False
    then show ?thesis by (simp add: batch_loop_done)
  qed
qed

lemma batch_loop_slice:
  assumes len: "\<And>i b. length (body i b) = length b"
  shows "i \<le> j \<Longrightarrow> BATCH_SIZE dvd (j - i) \<Longrightarrow> j < length rows \<Longrightarrow>
     take BATCH_SIZE (drop (j - i) (batch_loop body i rows)) = body j (take BATCH_SIZE (drop j rows))"
proof (induction "length rows - i" arbitrary: i rule: less_induct)
  case less
  have i_lt: "i < length rows" using less.prems by simp
  let ?B = "body i (take BATCH_SIZE (drop i rows))"
  have lenB: "length ?B = min BATCH_SIZE (length rows - i)"
    by (simp add: len)
  note unfold = batch_loop_step [OF i_lt, of body]
  show ?case
  proof (cases "j = i")
    case True
    show ?thesis
    proof (cases "i + BATCH_SIZE < length rows")
      case True
      then have "length ?B = BATCH_SIZE" using lenB by simp
      then show ?thesis using \<open>j = i\<close> unfold by simp
    next
      case False
      then have "batch_loop body (i + BATCH_SIZE) rows = []"
        by (simp add: batch_loop_done)
      then show ?thesis using \<open>j = i\<close> unfold lenB by simp
    qed
  next
    case False
    from less.prems(2) obtain q where q: "j - i = BATCH_SIZE * q" by (elim dvdE)
    with False less.prems(1) have "q \<noteq> 0" by (cases q) auto
    then obtain q' where q': "q = Suc q'" by (cases q) auto
    have ge: "i + BATCH_SIZE \<le> j" using q q' by (simp add: BATCH_SIZE_def)
    have dvd': "BATCH_SIZE dvd (j - (i + BATCH_SIZE))"
    proof -
      have "j - (i + BATCH_SIZE) = BATCH_SIZE * q'" using q q' by simp
      then show ?thesis by simp
    qed
    have full: "length ?B = BATCH_SIZE" using lenB less.prems(3) ge by simp
    have smaller: "length rows - (i + BATCH_SIZE) < length rows - i"
      using i_lt by (simp add: BATCH_SIZE_def)
    have "drop (j - i) (batch_loop body i rows)
        = drop (j - (i + BATCH_SIZE)) (batch_loop body (i + BATCH_SIZE) rows)"
      using unfold full ge by simp
    then show ?thesis
      using less.hyps [OF smaller ge dvd' less.prems(3)] by simp
  qed
qed

lemma batch_loop_nth:
  assumes len: "\<And>i b. length (body i b) = length b"
    and k: "k < length rows"
  shows "batch_loop body 0 rows ! k =
         body (k div BATCH_SIZE * BATCH_SIZE) (take BATCH_SIZE (drop (k div BATCH_SIZE * BATCH_SIZE) rows))
           ! (k mod BATCH_SIZE)"
proof -
  let ?j = "k div BATCH_SIZE * BATCH_SIZE"
  have j_le: "?j \<le> k" by simp
  have kj: "k = ?j + k mod BATCH_SIZE" by simp
  have slice: "take BATCH_SIZE (drop ?j (batch_loop body 0 rows)) = body ?j (take BATCH_SIZE (drop ?j rows))"
    using batch_loop_slice [of body 0 ?j rows] len j_le k by simp
  have "batch_loop body 0 rows ! k = drop ?j (batch_loop body 0 rows) ! (k mod BATCH_SIZE)"
  proof -
    have "?j < length rows"
      using j_le k by (rule le_less_trans)
    then have "?j \<le> length (batch_loop body 0 rows)"
      by (simp add: batch_loop_length [OF len])
    then have "drop ?j (batch_loop body 0 rows) ! (k mod BATCH_SIZE)
        = batch_loop body 0 rows ! (?j + k mod BATCH_SIZE)"
      by (rule nth_drop)
    then show ?thesis by simp
  qed
  also have "\<dots> = take BATCH_SIZE (drop ?j (batch_loop body 0 rows)) ! (k mod BATCH_SIZE)"
    by (simp add: BATCH_SIZE_def)
  finally show ?thesis using slice by simp
qed

lemma batch_loop_map:
  assumes "\<And>i b. map g (body i b) = map h b"
  shows "map g (batch_loop body i rows) = map h (drop i rows)"
proof (induction "length rows - i" arbitrary: i rule: less_induct)
  case less
  show ?case
  proof (cases "i < length rows")
    case True
    have "length rows - (i + BATCH_SIZE) < length rows - i"
      using True by (simp add: BATCH_SIZE_def)
    then have ih: "map g (batch_loop body (i + BATCH_SIZE) rows) = map h (drop (i + BATCH_SIZE) rows)"
      by (rule less)
    have "drop i rows = take BATCH_SIZE (drop i rows) @ drop (i + BATCH_SIZE) rows"
      by (metis add.commute append_take_drop_id drop_drop)
    then have "map h (drop i rows)
        = map h (take BATCH_SIZE (drop i rows)) @ map h (drop (i + BATCH_SIZE) rows)"
      by (metis map_append)
    then show ?thesis
      using True ih by (simp add: batch_loop_step assms)
  next
    case False
    then show ?thesis by (simp add: batch_loop_done)
  qed
qed

lemma batch_loop_all:
  assumes "\<And>i b. list_all P (body i b)"
  shows "list_all P (batch_loop body i rows)"
proof (induction "length rows - i" arbitrary: i rule: less_induct)
  case less
  show ?case
  proof (cases "i < length rows")
    case True
    have "length rows - (i + BATCH_SIZE) < length rows - i"
      using True by (simp add: BATCH_SIZE_def)
    then have "list_all P (batch_loop body (i + BATCH_SIZE) rows)"
      by (rule less)
    then show ?thesis
      using True by (simp add: batch_loop_step assms)
  next
    case False
    then show ?thesis by (simp add: batch_loop_done)
  qed
qed

lemma map_enumerate_each:
  assumes "\<And>k x. g (f k x) = h x"
  shows "map g (map (\<lambda>(k, x). f k x) (enumerate n xs)) = map h xs"
  by (rule nth_equalityI) (simp_all add: nth_enumerate_eq assms)

lemma analyze_batch_length: "length (analyze_batch ep gw jobId i b) = length b"
  by (simp add: analyze_batch_def errorBatch_def split: option.splits)

lemma rePredict_batch_length: "length (rePredict_batch gw i b) = length b"
  by (simp add: rePredict_batch_def split: option.splits)

lemma rePredictionResults_length:
  "length (rePredictionResults gw flows) = length flows"
  by (simp add: rePredictionResults_def batch_loop_length rePredict_batch_length)

section \<open>Labels at ingestion\<close>

lemma prediction_or_Error_missing:
  "length predictions \<le> index \<or> \<not> truthy (predictions ! index) \<Longrightarrow>
   prediction_or_Error predictions index = ''Error''"
  by (auto simp: prediction_or_Error_def js_or_def)

lemma rowWithPrediction_call:
  "snd (rowWithPrediction jobId predictions index row) = Some call \<Longrightarrow>
   fst (snd call) \<noteq> ''Error'' \<and> fst (snd call) \<noteq> ''benign''"
  by (auto simp: rowWithPrediction_def Let_def split: if_splits)

lemma analyze_batch_calls:
  "list_all (\<lambda>r. \<forall>call. snd r = Some call \<longrightarrow> fst (snd call) \<noteq> ''Error'' \<and> fst (snd call) \<noteq> ''benign'')
     (analyze_batch ep gw jobId i b)"
proof (cases "gw i (map (batchForModel ep) b)")
  case None
  then show ?thesis by (simp add: analyze_batch_def errorBatch_def list_all_iff)
next
  case (Some ps)
  then show ?thesis
    by (auto simp: analyze_batch_def list_all_iff dest!: rowWithPrediction_call)
qed

text \<open>
  Claim C10. In either endpoint, when the gateway answers a row's batch with fewer labels
  than the row's index needs, or with a falsy label (\<^verbatim>\<open>undefined\<close>, \<^verbatim>\<open>null\<close>, the empty
  string) at it, the row is stored with the prediction \<^verbatim>\<open>Error\<close> and is not submitted to
  \<^verbatim>\<open>manageDefenseRules\<close>; no submitted call carries the label \<^verbatim>\<open>Error\<close>.
\<close>

theorem missing_label_is_Error_and_unevaluated:
  assumes "k < length rows"
    and "gw (k div BATCH_SIZE * BATCH_SIZE)
            (map (batchForModel ep) (take BATCH_SIZE (drop (k div BATCH_SIZE * BATCH_SIZE) rows)))
         = Some predictions"
    and "length predictions \<le> k mod BATCH_SIZE \<or> \<not> truthy (predictions ! (k mod BATCH_SIZE))"
  shows "analyze_rows ep gw jobId rows ! k
           = ((rows ! k)\<lparr>prediction := Str ''Error'', analysis_id := Str jobId\<rparr>, None)
       \<and> prediction (resultsWithPredictions (analyze_rows ep gw jobId rows) ! k) = Str ''Error''
       \<and> (\<forall>call \<in> set (rule_evaluations (analyze_rows ep gw jobId rows)). fst (snd call) \<noteq> ''Error'')"
proof -
  let ?b = "k div BATCH_SIZE * BATCH_SIZE"
  let ?m = "k mod BATCH_SIZE"
  let ?batch = "take BATCH_SIZE (drop ?b rows)"
  have len: "length (analyze_rows ep gw jobId rows) = length rows"
    by (simp add: analyze_rows_def batch_loop_length analyze_batch_length)
  have kk: "?b + ?m = k" by simp
  have b_le: "?b \<le> k" by simp
  have m_lt: "?m < length ?batch"
  proof -
    have "?m < BATCH_SIZE" by (simp add: BATCH_SIZE_def)
    moreover have "?m < length rows - ?b" using assms(1) kk by linarith
    ultimately show ?thesis by simp
  qed
  have at: "?batch ! ?m = rows ! k"
  proof -
    have "?batch ! ?m = drop ?b rows ! ?m" using m_lt by simp
    also have "\<dots> = rows ! (?b + ?m)"
      using assms(1) b_le by (intro nth_drop) linarith
    finally show ?thesis using kk by simp
  qed
  have "analyze_rows ep gw jobId rows ! k = analyze_batch ep gw jobId ?b ?batch ! ?m"
    unfolding analyze_rows_def using assms(1) by (intro batch_loop_nth) (rule analyze_batch_length)
  also have "\<dots> = rowWithPrediction jobId predictions ?m (?batch ! ?m)"
    using assms(2) m_lt by (simp add: analyze_batch_def nth_enumerate_eq)
  also have "\<dots> = ((rows ! k)\<lparr>prediction := Str ''Error'', analysis_id := Str jobId\<rparr>, None)"
    using prediction_or_Error_missing [OF assms(3)]
    by (simp add: rowWithPrediction_def DIAGNOSTIC_FORCE_ATTACK_def at)
  finally have row: "analyze_rows ep gw jobId rows ! k
           = ((rows ! k)\<lparr>prediction := Str ''Error'', analysis_id := Str jobId\<rparr>, None)" .
  then have lab: "prediction (resultsWithPredictions (analyze_rows ep gw jobId rows) ! k) = Str ''Error''"
    using assms(1) len by (simp add: resultsWithPredictions_def)
  have "list_all (\<lambda>r. \<forall>call. snd r = Some call \<longrightarrow> fst (snd call) \<noteq> ''Error'' \<and> fst (snd call) \<noteq> ''benign'')
     (analyze_rows ep gw jobId rows)"
    unfolding analyze_rows_def by (intro batch_loop_all) (rule analyze_batch_calls)
  then have calls: "\<forall>call \<in> set (rule_evaluations (analyze_rows ep gw jobId rows)). fst (snd call) \<noteq> ''Error''"
    by (auto simp: rule_evaluations_def map_filter_def list_all_iff)
  show ?thesis using row lab calls by blast
qed

text \<open>Two labels for three rows, the second \<^verbatim>\<open>null\<close>: the second and third row are labelled \<^verbatim>\<open>Error\<close>.\<close>

theorem missing_label_is_Error_and_unevaluated_witness:
  "(1::nat) < length upload \<and> (2::nat) < length upload
   \<and> short_gateway 0 (map (batchForModel Analyze_csv) upload) = Some [Str ''DDoS'', Null]
   \<and> short_gateway 0 (map (batchForModel Analyze_api) upload) = Some [Str ''DDoS'', Null]
   \<and> \<not> truthy ([Str ''DDoS'', Null] ! 1)
   \<and> length [Str ''DDoS'', Null] \<le> 2
   \<and> analyze_rows Analyze_csv short_gateway ''job1'' upload ! 1
       = ((example_row 100)\<lparr>prediction := Str ''Error'', analysis_id := Str ''job1''\<rparr>, None)
   \<and> analyze_rows Analyze_api short_gateway ''job1'' upload ! 2
       = ((example_row 200)\<lparr>prediction := Str ''Error'', analysis_id := Str ''job1''\<rparr>, None)"
  using
    missing_label_is_Error_and_unevaluated [of 1 upload short_gateway Analyze_csv "[Str ''DDoS'', Null]" "''job1''"]
    missing_label_is_Error_and_unevaluated [of 2 upload short_gateway Analyze_api "[Str ''DDoS'', Null]" "''job1''"]
  by (simp add: upload_def short_gateway_def BATCH_SIZE_def)

section \<open>The reanalysis partition\<close>

lemma fold_assign_own:
  "k \<noteq> ''__proto__'' \<Longrightarrow>
   (k \<in> dom (own_rules (fold (\<lambda>rule m. assign_rule (ip_address (cols rule))
                      (rule_created_at rule, expires_at (cols rule)) m) rules m)))
   = (k \<in> dom (own_rules m) \<or> k \<in> (\<lambda>r. ip_address (cols r)) ` set rules)"
  by (induction rules arbitrary: m) (auto simp: assign_rule_def)

lemma read_ordinary:
  "k \<notin> set inheritable_names \<Longrightarrow>
   truthy_property (read_property m k) = (k \<in> dom (own_rules m))"
  by (auto simp: read_property_def inheritable_names_def Object_prototype_names_def
      split: option.splits)

lemma blockedIpMap_ordinary:
  assumes "k \<notin> set inheritable_names"
  shows "truthy_property (read_property (blockedIpMap (Some rules)) k)
       = (k \<in> (\<lambda>r. ip_address (cols r)) ` set rules)"
proof -
  have k: "k \<noteq> ''__proto__''"
    using assms by (auto simp: inheritable_names_def Object_prototype_names_def)
  have "blockedIpMap (Some rules) = fold (\<lambda>rule m. assign_rule (ip_address (cols rule))
                      (rule_created_at rule, expires_at (cols rule)) m) rules empty_object"
    by (simp add: blockedIpMap_def)
  then show ?thesis
    unfolding read_ordinary [OF assms] using fold_assign_own [OF k, of rules empty_object]
    by (simp add: empty_object_def)
qed

lemma blockedIpMap_null:
  "k \<notin> set inheritable_names \<Longrightarrow> \<not> truthy_property (read_property (blockedIpMap None) k)"
  by (simp add: read_ordinary blockedIpMap_def empty_object_def)

lemma fold_filter_step:
  "fold (filter_step ipMap) rows (keep, blocked) =
     (keep @ filter (\<lambda>row. \<not> isBlockedByPolicy ipMap row) rows,
      blocked @ map policy_blocked (filter (isBlockedByPolicy ipMap) rows))"
  by (induction rows arbitrary: keep blocked) (auto simp: filter_step_def policy_blocked_def)

lemma filter_rows_eq:
  "filter_rows ipMap rows =
     (filter (\<lambda>row. \<not> isBlockedByPolicy ipMap row) rows,
      map policy_blocked (filter (isBlockedByPolicy ipMap) rows))"
  by (simp add: filter_rows_def fold_filter_step)

lemma isBlockedByPolicy_iff:
  "isBlockedByPolicy ipMap row =
     ((truthy_property (read_property ipMap (property_key (src_ip row)))
       \<or> truthy_property (read_property ipMap (property_key (dst_ip row))))
      \<and> originalPrediction row \<noteq> ''benign'' \<and> originalPrediction row \<noteq> ''error'')"
  unfolding isBlockedByPolicy_def Let_def by auto

lemma active_key_iff:
  assumes "ordinary_address ip"
  shows "truthy_property (read_property
     (blockedIpMap (Some (filter (\<lambda>r. is_active (cols r) \<and> now < expires_at (cols r)) store)))
     (property_key ip))
   = active_rule_for now store ip"
proof -
  have k: "property_key ip \<notin> set inheritable_names"
    using assms by (simp add: ordinary_address_def)
  show ?thesis
    unfolding blockedIpMap_ordinary [OF k] active_rule_for_def by force
qed

lemma isBlockedByPolicy_current:
  assumes "ordinary_addresses row"
  shows "isBlockedByPolicy
     (blockedIpMap (Some (filter (\<lambda>r. is_active (cols r) \<and> now < expires_at (cols r)) store))) row
   = blocked_by_current_rules now store row"
proof -
  have a: "ordinary_address (src_ip row)" and b: "ordinary_address (dst_ip row)"
    using assms by (simp_all add: ordinary_addresses_def)
  show ?thesis
    unfolding isBlockedByPolicy_iff blocked_by_current_rules_def
      active_key_iff [OF a] active_key_iff [OF b] by (rule refl)
qed

lemma isBlockedByPolicy_null:
  "ordinary_addresses row \<Longrightarrow> \<not> isBlockedByPolicy (blockedIpMap None) row"
  unfolding isBlockedByPolicy_iff ordinary_addresses_def ordinary_address_def
  by (simp add: blockedIpMap_null)

lemma policy_blocked_label:
  "originalPrediction (policy_blocked row) = ''rule_blocked_historical''"
  by (simp add: originalPrediction_def policy_blocked_def toLowerCase_def toLowerCase_char_def)

lemma policy_blocked_stays_blocked:
  "isBlockedByPolicy ipMap row \<Longrightarrow> isBlockedByPolicy ipMap (policy_blocked row)"
  unfolding isBlockedByPolicy_iff policy_blocked_label by (simp add: policy_blocked_def)

lemma history_blocked:
  "map (blocked_by_current_rules 5400000 [other_rule, expired_rule]) history = [True, False, False, False]"
  by (simp add: history_def history_flow_def blocked_by_current_rules_def active_rule_for_def
      other_rule_def expired_rule_def originalPrediction_def toLowerCase_def toLowerCase_char_def)

lemma history_active:
  "select_active_rules No_fault 5400000 [other_rule, expired_rule] = Inr (Some [other_rule])"
  by (simp add: select_active_rules_def other_rule_def expired_rule_def)

lemma history_ordinary: "list_all ordinary_addresses history"
  by (simp add: history_def history_flow_def ordinary_addresses_def ordinary_address_def
      inheritable_names_def Object_prototype_names_def)

lemma history_partition:
  "filter_rows (blockedIpMap (Some [other_rule])) history
   = ([history_flow ''192.168.1.7'' ''10.0.0.1'' (Str ''Benign''),
       history_flow ''10.0.0.5'' ''10.0.0.1'' (Str ''DDoS''),
       history_flow ''10.0.0.1'' ''192.168.1.7'' Null],
      [policy_blocked (history_flow ''192.168.1.7'' ''10.0.0.1'' (Str ''DDoS''))])"
proof -
  have eq: "filter (\<lambda>r. is_active (cols r) \<and> 5400000 < expires_at (cols r))
          [other_rule, expired_rule] = [other_rule]"
    by (simp add: other_rule_def expired_rule_def)
  have cur: "ordinary_addresses row \<Longrightarrow> isBlockedByPolicy (blockedIpMap (Some [other_rule])) row
      = blocked_by_current_rules 5400000 [other_rule, expired_rule] row" for row
    using isBlockedByPolicy_current [of row 5400000 "[other_rule, expired_rule]"] unfolding eq .
  have "map (isBlockedByPolicy (blockedIpMap (Some [other_rule]))) history
      = map (blocked_by_current_rules 5400000 [other_rule, expired_rule]) history"
    using history_ordinary by (simp add: list_all_iff cur)
  then have "map (isBlockedByPolicy (blockedIpMap (Some [other_rule]))) history = [True, False, False, False]"
    unfolding history_blocked .
  then show ?thesis
    unfolding filter_rows_eq by (simp add: history_def)
qed

text \<open>
  Claim C2, as stated, at an input: the rule query answers with an error, so that the
  handler reads \<^verbatim>\<open>null\<close> for the rules. The store holds an active rule for the source
  address of a stored flow labelled \<^verbatim>\<open>DDoS\<close>; the flow is admitted and nothing is blocked.
\<close>

theorem failed_rule_query_blocks_nothing:
  "select_active_rules (Db_error ''timeout'') 5400000 [other_rule, expired_rule] = Inr None
   \<and> ordinary_addresses (history_flow ''192.168.1.7'' ''10.0.0.1'' (Str ''DDoS''))
   \<and> blocked_by_current_rules 5400000 [other_rule, expired_rule]
        (history_flow ''192.168.1.7'' ''10.0.0.1'' (Str ''DDoS''))
   \<and> hd history = history_flow ''192.168.1.7'' ''10.0.0.1'' (Str ''DDoS'')
   \<and> filter_rows (blockedIpMap None) history = (history, [])"
proof -
  have b: "map (blocked_by_current_rules 5400000 [other_rule, expired_rule]) history ! 0"
    unfolding history_blocked by simp
  have n: "filter (\<lambda>row. \<not> isBlockedByPolicy (blockedIpMap None) row) history = history"
    "filter (isBlockedByPolicy (blockedIpMap None)) history = []"
    using history_ordinary by (auto simp: list_all_iff isBlockedByPolicy_null filter_empty_conv)
  show ?thesis
    using b history_ordinary unfolding filter_rows_eq n
    by (simp add: select_active_rules_def history_def)
qed

text \<open>
  The rule map answers for names it inherits: with no rule at all, a flow labelled \<^verbatim>\<open>DDoS\<close>
  whose source address is \<^verbatim>\<open>constructor\<close> is blocked.
\<close>

lemma inherited_name_is_blocked_without_rule:
  "select_active_rules No_fault 5400000 [] = Inr (Some [])
   \<and> \<not> blocked_by_current_rules 5400000 [] (history_flow ''constructor'' ''10.0.0.1'' (Str ''DDoS''))
   \<and> filter_rows (blockedIpMap (Some [])) [history_flow ''constructor'' ''10.0.0.1'' (Str ''DDoS'')]
       = ([], [policy_blocked (history_flow ''constructor'' ''10.0.0.1'' (Str ''DDoS''))])"
  unfolding filter_rows_eq isBlockedByPolicy_iff
  by (simp add: select_active_rules_def blocked_by_current_rules_def active_rule_for_def
      blockedIpMap_def empty_object_def read_property_def Object_prototype_names_def
      history_flow_def originalPrediction_def toLowerCase_def toLowerCase_char_def)

text \<open>
  Claim C2, amended. For stored flows whose addresses are ordinary (none is a name the rule
  map can inherit) and a rule query that does not raise: when the query answers, the
  blocked list is, in order, the stored flows for which a rule that is active now
  (\<open>is_active\<close>, \<open>expires_at\<close> after \<open>now\<close>) exists for the source or the destination address
  and whose original label is neither \<^verbatim>\<open>benign\<close> nor \<^verbatim>\<open>error\<close>, each marked
  \<^verbatim>\<open>Rule_Blocked_Historical\<close>, and the admitted list is the others; when the query answers
  with an error, nothing is blocked and every flow is admitted. A flow labelled benign or
  error is admitted whatever the rules, and the test does not read any time field of the
  flow. (The label is compared as the code compares it: lower-cased, a missing one read as
  \<^verbatim>\<open>error\<close>.)
\<close>

theorem blocked_iff_fetched_rule_and_label:
  assumes "select_active_rules rules_fault now store = Inr activeRules"
    and "filter_rows (blockedIpMap activeRules) historicalResults = (flowsToReanalyze, blockedFlows)"
    and "\<forall>row \<in> set historicalResults. ordinary_addresses row"
  shows "(rules_fault = No_fault \<longrightarrow>
            blockedFlows = map policy_blocked (filter (blocked_by_current_rules now store) historicalResults)
            \<and> flowsToReanalyze = filter (\<lambda>row. \<not> blocked_by_current_rules now store row) historicalResults)
       \<and> (rules_fault \<noteq> No_fault \<longrightarrow> blockedFlows = [] \<and> flowsToReanalyze = historicalResults)
       \<and> (\<forall>row \<in> set historicalResults.
            originalPrediction row = ''benign'' \<or> originalPrediction row = ''error''
            \<longrightarrow> row \<in> set flowsToReanalyze)
       \<and> (\<forall>row t1 t2 t3 t4.
            isBlockedByPolicy (blockedIpMap activeRules)
              (row\<lparr>timestamp := t1, created_at := t2, Timestamp := t3, createdAt := t4\<rparr>)
            = isBlockedByPolicy (blockedIpMap activeRules) row)"
proof -
  have parts: "flowsToReanalyze = filter (\<lambda>row. \<not> isBlockedByPolicy (blockedIpMap activeRules) row) historicalResults"
    "blockedFlows = map policy_blocked (filter (isBlockedByPolicy (blockedIpMap activeRules)) historicalResults)"
    using assms(2) unfolding filter_rows_eq by simp_all
  have ok: "rules_fault = No_fault \<longrightarrow>
            blockedFlows = map policy_blocked (filter (blocked_by_current_rules now store) historicalResults)
            \<and> flowsToReanalyze = filter (\<lambda>row. \<not> blocked_by_current_rules now store row) historicalResults"
  proof
    assume f: "rules_fault = No_fault"
    then have ar: "activeRules = Some (filter (\<lambda>r. is_active (cols r) \<and> now < expires_at (cols r)) store)"
      using assms(1) by (simp add: select_active_rules_def)
    have same: "\<forall>row \<in> set historicalResults.
        isBlockedByPolicy (blockedIpMap activeRules) row = blocked_by_current_rules now store row"
      using assms(3) isBlockedByPolicy_current [of _ now store] unfolding ar by blast
    have f1: "filter (isBlockedByPolicy (blockedIpMap activeRules)) historicalResults
        = filter (blocked_by_current_rules now store) historicalResults"
      using same by (intro filter_cong) simp_all
    have f2: "filter (\<lambda>row. \<not> isBlockedByPolicy (blockedIpMap activeRules) row) historicalResults
        = filter (\<lambda>row. \<not> blocked_by_current_rules now store row) historicalResults"
      using same by (intro filter_cong) simp_all
    show "blockedFlows = map policy_blocked (filter (blocked_by_current_rules now store) historicalResults)
            \<and> flowsToReanalyze = filter (\<lambda>row. \<not> blocked_by_current_rules now store row) historicalResults"
      unfolding parts f1 f2 by simp
  qed
  have err: "rules_fault \<noteq> No_fault \<longrightarrow> blockedFlows = [] \<and> flowsToReanalyze = historicalResults"
  proof
    assume f: "rules_fault \<noteq> No_fault"
    then have ar: "activeRules = None"
      using assms(1) by (cases rules_fault) (simp_all add: select_active_rules_def)
    show "blockedFlows = [] \<and> flowsToReanalyze = historicalResults"
      using assms(3) unfolding parts ar by (auto simp: isBlockedByPolicy_null filter_empty_conv)
  qed
  have benign: "\<forall>row \<in> set historicalResults.
            originalPrediction row = ''benign'' \<or> originalPrediction row = ''error''
            \<longrightarrow> row \<in> set flowsToReanalyze"
    unfolding parts by (auto simp: isBlockedByPolicy_iff)
  have time: "\<forall>row t1 t2 t3 t4.
            isBlockedByPolicy (blockedIpMap activeRules)
              (row\<lparr>timestamp := t1, created_at := t2, Timestamp := t3, createdAt := t4\<rparr>)
            = isBlockedByPolicy (blockedIpMap activeRules) row"
    by (simp add: isBlockedByPolicy_iff originalPrediction_def)
  show ?thesis using ok err benign time by blast
qed

text \<open>
  Of four flows with ordinary addresses, the one labelled DDoS from the address with the
  active rule is blocked when the query answers, and none when it answers with an error.
\<close>

theorem blocked_iff_fetched_rule_and_label_witness:
  "select_active_rules No_fault 5400000 [other_rule, expired_rule] = Inr (Some [other_rule])
   \<and> select_active_rules (Db_error ''timeout'') 5400000 [other_rule, expired_rule] = Inr None
   \<and> list_all ordinary_addresses history
   \<and> snd (filter_rows (blockedIpMap (Some [other_rule])) history)
       = [policy_blocked (history_flow ''192.168.1.7'' ''10.0.0.1'' (Str ''DDoS''))]
   \<and> fst (filter_rows (blockedIpMap (Some [other_rule])) history)
       = [history_flow ''192.168.1.7'' ''10.0.0.1'' (Str ''Benign''),
          history_flow ''10.0.0.5'' ''10.0.0.1'' (Str ''DDoS''),
          history_flow ''10.0.0.1'' ''192.168.1.7'' Null]
   \<and> snd (filter_rows (blockedIpMap None) history) = []
   \<and> fst (filter_rows (blockedIpMap None) history) = history"
proof -
  have e: "select_active_rules (Db_error ''timeout'') 5400000 [other_rule, expired_rule] = Inr None"
    by (simp add: select_active_rules_def)
  have o: "\<forall>row \<in> set history. ordinary_addresses row"
    using history_ordinary by (simp add: list_all_iff)
  note w1 = blocked_iff_fetched_rule_and_label [OF history_active surjective_pairing o]
  note w2 = blocked_iff_fetched_rule_and_label [OF e surjective_pairing o]
  have b: "filter (blocked_by_current_rules 5400000 [other_rule, expired_rule]) history
        = [history_flow ''192.168.1.7'' ''10.0.0.1'' (Str ''DDoS'')]"
    and k: "filter (\<lambda>row. \<not> blocked_by_current_rules 5400000 [other_rule, expired_rule] row) history
        = [history_flow ''192.168.1.7'' ''10.0.0.1'' (Str ''Benign''),
           history_flow ''10.0.0.5'' ''10.0.0.1'' (Str ''DDoS''),
           history_flow ''10.0.0.1'' ''192.168.1.7'' Null]"
    using history_blocked by (simp_all add: history_def)
  have p1: "snd (filter_rows (blockedIpMap (Some [other_rule])) history)
       = [policy_blocked (history_flow ''192.168.1.7'' ''10.0.0.1'' (Str ''DDoS''))]"
    and p2: "fst (filter_rows (blockedIpMap (Some [other_rule])) history)
       = [history_flow ''192.168.1.7'' ''10.0.0.1'' (Str ''Benign''),
          history_flow ''10.0.0.5'' ''10.0.0.1'' (Str ''DDoS''),
          history_flow ''10.0.0.1'' ''192.168.1.7'' Null]"
    using w1 unfolding b k by simp_all
  have p3: "snd (filter_rows (blockedIpMap None) history) = []"
    and p4: "fst (filter_rows (blockedIpMap None) history) = history"
    using w2 by simp_all
  show ?thesis
    using history_active e history_ordinary p1 p2 p3 p4 by (simp only: simp_thms)
qed

text \<open>
  Claim C3. Whatever the rule map, the two lists of the partition have together as many
  entries as there are stored flows, no row is in both, and each stored flow went to one
  of them by the test alone: the admitted list is the flows failing the test, the blocked
  list the marked flows passing it.
\<close>

theorem partition_exhaustive_disjoint:
  assumes "filter_rows ipMap historicalResults = (flowsToReanalyze, blockedFlows)"
  shows "length flowsToReanalyze + length blockedFlows = length historicalResults
       \<and> set flowsToReanalyze \<inter> set blockedFlows = {}
       \<and> flowsToReanalyze = filter (\<lambda>row. \<not> isBlockedByPolicy ipMap row) historicalResults
       \<and> blockedFlows = map policy_blocked (filter (isBlockedByPolicy ipMap) historicalResults)"
proof -
  have keep: "flowsToReanalyze = filter (\<lambda>row. \<not> isBlockedByPolicy ipMap row) historicalResults"
    and blocked: "blockedFlows = map policy_blocked (filter (isBlockedByPolicy ipMap) historicalResults)"
    using assms by (simp_all add: filter_rows_eq)
  have len: "length flowsToReanalyze + length blockedFlows = length historicalResults"
    unfolding keep blocked by (simp add: sum_length_filter_compl add.commute)
  have disj: "set flowsToReanalyze \<inter> set blockedFlows = {}"
  proof (rule ccontr)
    assume "set flowsToReanalyze \<inter> set blockedFlows \<noteq> {}"
    then obtain x where x1: "x \<in> set flowsToReanalyze" and x2: "x \<in> set blockedFlows" by blast
    from x1 have "\<not> isBlockedByPolicy ipMap x" unfolding keep by simp
    moreover from x2 obtain y where "x = policy_blocked y" "isBlockedByPolicy ipMap y"
      unfolding blocked by auto
    ultimately show False using policy_blocked_stays_blocked by blast
  qed
  show ?thesis using len disj keep blocked by blast
qed

theorem partition_exhaustive_disjoint_witness:
  "length (fst (filter_rows (blockedIpMap (Some [other_rule])) history))
     + length (snd (filter_rows (blockedIpMap (Some [other_rule])) history)) = 4
   \<and> set (fst (filter_rows (blockedIpMap (Some [other_rule])) history))
       \<inter> set (snd (filter_rows (blockedIpMap (Some [other_rule])) history)) = {}"
proof -
  note w = partition_exhaustive_disjoint [OF surjective_pairing, of "blockedIpMap (Some [other_rule])" history]
  have n: "length history = 4" by (simp add: history_def)
  from w have "length (fst (filter_rows (blockedIpMap (Some [other_rule])) history))
     + length (snd (filter_rows (blockedIpMap (Some [other_rule])) history)) = length history"
    by (rule conjunct1)
  moreover from w have "set (fst (filter_rows (blockedIpMap (Some [other_rule])) history))
       \<inter> set (snd (filter_rows (blockedIpMap (Some [other_rule])) history)) = {}"
    by (rule conjunct2 [THEN conjunct1])
  ultimately show ?thesis using n by (simp only:) 
qed

lemma casings_lowered:
  "list_all (\<lambda>s. s \<noteq> [] \<and> toLowerCase s = ''benign'') (casings ''benign'')"
  "list_all (\<lambda>s. s \<noteq> [] \<and> toLowerCase s = ''error'') (casings ''error'')"
  by code_simp+

text \<open>
  Claim C9. A flow whose stored prediction is \<^verbatim>\<open>null\<close>, \<^verbatim>\<open>undefined\<close>, or \<^verbatim>\<open>benign\<close> or
  \<^verbatim>\<open>error\<close> in any letter-casing fails the block test under every rule map: its original
  label reads \<^verbatim>\<open>benign\<close> or \<^verbatim>\<open>error\<close>, and wherever it stands among the stored flows it
  is pushed to the admitted list and nothing is pushed to the blocked list for it.
\<close>

theorem label_test_ignores_case_and_absence:
  assumes "prediction row = Null \<or> prediction row = Undefined
         \<or> (\<exists>s \<in> set (casings ''benign'') \<union> set (casings ''error''). prediction row = Str s)"
  shows "\<not> isBlockedByPolicy ipMap row
       \<and> (originalPrediction row = ''benign'' \<or> originalPrediction row = ''error'')
       \<and> fst (filter_rows ipMap (before @ row # after))
           = fst (filter_rows ipMap before) @ row # fst (filter_rows ipMap after)
       \<and> snd (filter_rows ipMap (before @ row # after))
           = snd (filter_rows ipMap before) @ snd (filter_rows ipMap after)"
proof -
  have in_b: "s \<noteq> [] \<and> toLowerCase s = ''benign''" if "s \<in> set (casings ''benign'')" for s
    using casings_lowered(1) that unfolding list_all_iff by blast
  have in_e: "s \<noteq> [] \<and> toLowerCase s = ''error''" if "s \<in> set (casings ''error'')" for s
    using casings_lowered(2) that unfolding list_all_iff by blast
  from assms consider "prediction row = Null" | "prediction row = Undefined"
    | s where "s \<in> set (casings ''benign'')" "prediction row = Str s"
    | s where "s \<in> set (casings ''error'')" "prediction row = Str s"
    by blast
  then have label: "originalPrediction row = ''benign'' \<or> originalPrediction row = ''error''"
  proof cases
    case 1
    then show ?thesis by (simp add: originalPrediction_def)
  next
    case 2
    then show ?thesis by (simp add: originalPrediction_def)
  next
    case 3
    then show ?thesis using in_b [of s] by (simp add: originalPrediction_def)
  next
    case 4
    then show ?thesis using in_e [of s] by (simp add: originalPrediction_def)
  qed
  then have nb: "\<not> isBlockedByPolicy ipMap row"
    unfolding isBlockedByPolicy_iff by blast
  show ?thesis using label nb by (simp add: filter_rows_eq)
qed

theorem label_test_ignores_case_and_absence_witness:
  "''BeNiGn'' \<in> set (casings ''benign'') \<and> ''ERROR'' \<in> set (casings ''error'')
   \<and> \<not> isBlockedByPolicy (blockedIpMap (Some [other_rule])) (history_flow ''192.168.1.7'' ''10.0.0.1'' (Str ''BeNiGn''))
   \<and> \<not> isBlockedByPolicy (blockedIpMap (Some [other_rule])) (history_flow ''192.168.1.7'' ''10.0.0.1'' (Str ''ERROR''))
   \<and> \<not> isBlockedByPolicy (blockedIpMap (Some [other_rule])) (history_flow ''192.168.1.7'' ''10.0.0.1'' Null)
   \<and> \<not> isBlockedByPolicy (blockedIpMap (Some [other_rule])) (history_flow ''192.168.1.7'' ''10.0.0.1'' Undefined)
   \<and> isBlockedByPolicy (blockedIpMap (Some [other_rule])) (history_flow ''192.168.1.7'' ''10.0.0.1'' (Str ''DDoS''))"
proof -
  have c1: "''BeNiGn'' \<in> set (casings ''benign'')" and c2: "''ERROR'' \<in> set (casings ''error'')"
    by code_simp+
  have hit: "isBlockedByPolicy (blockedIpMap (Some [other_rule])) (history_flow ''192.168.1.7'' ''10.0.0.1'' (Str ''DDoS''))"
    unfolding isBlockedByPolicy_iff
    by (simp add: history_flow_def other_rule_def originalPrediction_def toLowerCase_def toLowerCase_char_def
        blockedIpMap_def empty_object_def assign_rule_def read_property_def)
  have p: "prediction (history_flow src dst label) = label" for src dst label
    by (simp add: history_flow_def)
  have w1: "\<not> isBlockedByPolicy (blockedIpMap (Some [other_rule])) (history_flow ''192.168.1.7'' ''10.0.0.1'' (Str ''BeNiGn''))"
    using label_test_ignores_case_and_absence [of "history_flow ''192.168.1.7'' ''10.0.0.1'' (Str ''BeNiGn'')"
        "blockedIpMap (Some [other_rule])" "[]" "[]"] c1 unfolding p by blast
  have w2: "\<not> isBlockedByPolicy (blockedIpMap (Some [other_rule])) (history_flow ''192.168.1.7'' ''10.0.0.1'' (Str ''ERROR''))"
    using label_test_ignores_case_and_absence [of "history_flow ''192.168.1.7'' ''10.0.0.1'' (Str ''ERROR'')"
        "blockedIpMap (Some [other_rule])" "[]" "[]"] c2 unfolding p by blast
  have w3: "\<not> isBlockedByPolicy (blockedIpMap (Some [other_rule])) (history_flow ''192.168.1.7'' ''10.0.0.1'' Null)"
    using label_test_ignores_case_and_absence [of "history_flow ''192.168.1.7'' ''10.0.0.1'' Null"
        "blockedIpMap (Some [other_rule])" "[]" "[]"] unfolding p by blast
  have w4: "\<not> isBlockedByPolicy (blockedIpMap (Some [other_rule])) (history_flow ''192.168.1.7'' ''10.0.0.1'' Undefined)"
    using label_test_ignores_case_and_absence [of "history_flow ''192.168.1.7'' ''10.0.0.1'' Undefined"
        "blockedIpMap (Some [other_rule])" "[]" "[]"] unfolding p by blast
  show ?thesis
    using c1 c2 hit w1 w2 w3 w4 by (simp only: simp_thms)
qed

section \<open>Re-prediction\<close>

lemma rePredict_batch_unlabelled:
  "map unlabelled (rePredict_batch gw i b) = map unlabelled b"
proof (cases "gw i (map (\<lambda>row. row\<lparr>prediction := Undefined, analysis_id := Undefined\<rparr>) b)")
  case None
  then show ?thesis by (simp add: rePredict_batch_def unlabelled_def)
next
  case (Some ps)
  then show ?thesis
    unfolding rePredict_batch_def by (simp add: map_enumerate_each unlabelled_def del: map_map)
qed

lemma rePredict_batch_original:
  "map original_prediction (rePredict_batch gw i b) = map prediction b"
proof (cases "gw i (map (\<lambda>row. row\<lparr>prediction := Undefined, analysis_id := Undefined\<rparr>) b)")
  case None
  then show ?thesis by (simp add: rePredict_batch_def)
next
  case (Some ps)
  then show ?thesis
    unfolding rePredict_batch_def by (simp add: map_enumerate_each del: map_map)
qed

lemma admitted_flows_length: "length admitted_flows = 150"
  by (simp add: admitted_flows_def)

lemma second_batch_labels:
  "map prediction (rePredict_batch first_batch_fails 100 (take BATCH_SIZE (drop 100 admitted_flows)))
   = replicate 50 (Str ''benign'')"
  by code_simp

text \<open>
  Claim C6. When the gateway call of the batch starting at \<open>i\<close> fails, the results of that
  batch are its flows, each with \<^verbatim>\<open>prediction\<close> and \<^verbatim>\<open>original_prediction\<close> equal to its
  prior label. The results have the length of the admitted flows and are those flows but
  for the two labels, \<^verbatim>\<open>original_prediction\<close> being the prior label throughout; and every
  batch, before or after a failed one, holds what its own gateway call gave.
\<close>

theorem failed_batch_keeps_prior_labels:
  assumes "i < length flowsToReanalyze"
    and "BATCH_SIZE dvd i"
    and "gw i (map (\<lambda>row. row\<lparr>prediction := Undefined, analysis_id := Undefined\<rparr>)
                  (take BATCH_SIZE (drop i flowsToReanalyze))) = None"
  shows "take BATCH_SIZE (drop i (rePredictionResults gw flowsToReanalyze))
           = map keeps_prior_label (take BATCH_SIZE (drop i flowsToReanalyze))
       \<and> length (rePredictionResults gw flowsToReanalyze) = length flowsToReanalyze
       \<and> map unlabelled (rePredictionResults gw flowsToReanalyze) = map unlabelled flowsToReanalyze
       \<and> map original_prediction (rePredictionResults gw flowsToReanalyze) = map prediction flowsToReanalyze
       \<and> (\<forall>j. j < length flowsToReanalyze \<and> BATCH_SIZE dvd j \<longrightarrow>
             take BATCH_SIZE (drop j (rePredictionResults gw flowsToReanalyze))
             = rePredict_batch gw j (take BATCH_SIZE (drop j flowsToReanalyze)))"
proof -
  have slice: "take BATCH_SIZE (drop j (rePredictionResults gw flowsToReanalyze))
             = rePredict_batch gw j (take BATCH_SIZE (drop j flowsToReanalyze))"
    if "j < length flowsToReanalyze" "BATCH_SIZE dvd j" for j
    using batch_loop_slice [of "rePredict_batch gw" 0 j flowsToReanalyze] that
    by (simp add: rePredictionResults_def rePredict_batch_length)
  have failed: "rePredict_batch gw i (take BATCH_SIZE (drop i flowsToReanalyze))
      = map keeps_prior_label (take BATCH_SIZE (drop i flowsToReanalyze))"
    using assms(3) by (simp add: rePredict_batch_def keeps_prior_label_def)
  have un: "map unlabelled (rePredictionResults gw flowsToReanalyze) = map unlabelled flowsToReanalyze"
    using batch_loop_map [of unlabelled "rePredict_batch gw" unlabelled 0 flowsToReanalyze]
    by (simp add: rePredictionResults_def rePredict_batch_unlabelled)
  have orig: "map original_prediction (rePredictionResults gw flowsToReanalyze) = map prediction flowsToReanalyze"
    using batch_loop_map [of original_prediction "rePredict_batch gw" prediction 0 flowsToReanalyze]
    by (simp add: rePredictionResults_def rePredict_batch_original)
  show ?thesis
    using slice [OF assms(1,2)] failed rePredictionResults_length [of gw flowsToReanalyze] un orig slice
    by simp
qed

text \<open>Of 150 admitted flows the first batch fails and keeps its labels; the second is relabelled.\<close>

theorem failed_batch_keeps_prior_labels_witness:
  "0 < length admitted_flows \<and> BATCH_SIZE dvd 0
   \<and> first_batch_fails 0 (map (\<lambda>row. row\<lparr>prediction := Undefined, analysis_id := Undefined\<rparr>)
                             (take BATCH_SIZE (drop 0 admitted_flows))) = None
   \<and> take BATCH_SIZE (drop 0 (rePredictionResults first_batch_fails admitted_flows))
       = map keeps_prior_label (take BATCH_SIZE (drop 0 admitted_flows))
   \<and> length (rePredictionResults first_batch_fails admitted_flows) = 150
   \<and> map prediction (take BATCH_SIZE (drop 100 (rePredictionResults first_batch_fails admitted_flows)))
       = replicate 50 (Str ''benign'')"
proof -
  have h1: "0 < length admitted_flows" by (simp add: admitted_flows_length)
  have h2: "BATCH_SIZE dvd 0" by simp
  have h3: "first_batch_fails 0 (map (\<lambda>row. row\<lparr>prediction := Undefined, analysis_id := Undefined\<rparr>)
                             (take BATCH_SIZE (drop 0 admitted_flows))) = None"
    by (simp add: first_batch_fails_def)
  note w = failed_batch_keeps_prior_labels [of 0 admitted_flows first_batch_fails, OF h1 h2 h3]
  have b2: "(100::nat) < length admitted_flows \<and> BATCH_SIZE dvd 100"
    by (simp add: admitted_flows_length BATCH_SIZE_def)
  from w have s2: "take BATCH_SIZE (drop 100 (rePredictionResults first_batch_fails admitted_flows))
             = rePredict_batch first_batch_fails 100 (take BATCH_SIZE (drop 100 admitted_flows))"
    using b2 by blast
  from w have s1: "take BATCH_SIZE (drop 0 (rePredictionResults first_batch_fails admitted_flows))
       = map keeps_prior_label (take BATCH_SIZE (drop 0 admitted_flows))"
    and l: "length (rePredictionResults first_batch_fails admitted_flows) = length admitted_flows"
    by blast+
  show ?thesis
    using h1 h2 h3 s1 l unfolding s2 second_batch_labels admitted_flows_length by (simp only: simp_thms)
qed

section \<open>The reanalysis response\<close>

text \<open>
  Claim C4, as stated, at an input: a job with one stored flow, blocked by an active rule.
  The response is the message alone, with no summary and no count.
\<close>

theorem all_blocked_job_gets_no_summaries:
  "all_blocked_history \<noteq> []
   \<and> reanalyze No_fault No_fault labelling_gateway 5400000 [other_rule, expired_rule]
        all_blocked_history (Str ''job1'') = All_filtered ''job1''
   \<and> payload_of (reanalyze No_fault No_fault labelling_gateway 5400000 [other_rule, expired_rule]
        all_blocked_history (Str ''job1'')) = None"
proof -
  have "filter_rows (blockedIpMap (Some [other_rule])) all_blocked_history
        = ([], [policy_blocked (history_flow ''192.168.1.7'' ''10.0.0.1'' (Str ''DDoS''))])"
    unfolding filter_rows_eq isBlockedByPolicy_iff
    by (simp add: all_blocked_history_def history_flow_def other_rule_def originalPrediction_def
        toLowerCase_def toLowerCase_char_def
        blockedIpMap_def empty_object_def assign_rule_def read_property_def)
  then show ?thesis
    by (simp add: reanalyze_def getAnalysisResultsByJobId_def history_active all_blocked_history_def)
qed

text \<open>
  Claim C4, amended. For a request with an \<^verbatim>\<open>analysis_id\<close> whose flow read does not raise:
  the response is not-found exactly when the read gives \<^verbatim>\<open>null\<close> or no row. When the job
  has stored flows, the rule query does not raise and at least one flow is admitted, the
  response carries the summary of the re-predicted flows, the summary of the blocked flows,
  the original flow count and the admitted flow count. When every flow is blocked, the
  response is the message with the \<^verbatim>\<open>analysis_id\<close> alone.
\<close>

theorem reanalyze_not_found_and_payload:
  assumes "truthy analysis_id'"
    and "getAnalysisResultsByJobId flows_fault stored = Inr historicalResults"
  shows "(reanalyze flows_fault rules_fault gw now store stored analysis_id' = Not_found_404)
           = (historicalResults = None \<or> historicalResults = Some [])
       \<and> (historicalResults = Some stored \<and> stored \<noteq> []
            \<and> select_active_rules rules_fault now store = Inr activeRules
            \<and> fst (filter_rows (blockedIpMap activeRules) stored) \<noteq> []
            \<longrightarrow> reanalyze flows_fault rules_fault gw now store stored analysis_id'
                 = Reanalyzed
                     \<lparr>finalDashboardData = transformPredictionData
                        (rePredictionResults gw (fst (filter_rows (blockedIpMap activeRules) stored))),
                      payload_analysis_id = property_key analysis_id',
                      original_flow_count = length stored,
                      reanalyzed_flow_count = length (fst (filter_rows (blockedIpMap activeRules) stored)),
                      blockedData = transformBlockedData (snd (filter_rows (blockedIpMap activeRules) stored))\<rparr>
               \<and> transformPredictionData
                     (rePredictionResults gw (fst (filter_rows (blockedIpMap activeRules) stored))) \<noteq> None)
       \<and> (historicalResults = Some stored \<and> stored \<noteq> []
            \<and> select_active_rules rules_fault now store = Inr activeRules
            \<and> fst (filter_rows (blockedIpMap activeRules) stored) = []
            \<longrightarrow> reanalyze flows_fault rules_fault gw now store stored analysis_id'
                 = All_filtered (property_key analysis_id'))"
proof -
  from assms(1) obtain job where job: "analysis_id' = Str job" "job \<noteq> []"
    by (cases analysis_id') auto
  have nf: "(reanalyze flows_fault rules_fault gw now store stored analysis_id' = Not_found_404)
           = (historicalResults = None \<or> historicalResults = Some [])"
    using assms(2) job
    by (auto simp: reanalyze_def split: option.splits sum.splits prod.splits)
  have some: "historicalResults = Some stored \<and> stored \<noteq> []
            \<and> select_active_rules rules_fault now store = Inr activeRules
            \<and> fst (filter_rows (blockedIpMap activeRules) stored) \<noteq> []
            \<longrightarrow> reanalyze flows_fault rules_fault gw now store stored analysis_id'
                 = Reanalyzed
                     \<lparr>finalDashboardData = transformPredictionData
                        (rePredictionResults gw (fst (filter_rows (blockedIpMap activeRules) stored))),
                      payload_analysis_id = property_key analysis_id',
                      original_flow_count = length stored,
                      reanalyzed_flow_count = length (fst (filter_rows (blockedIpMap activeRules) stored)),
                      blockedData = transformBlockedData (snd (filter_rows (blockedIpMap activeRules) stored))\<rparr>
               \<and> transformPredictionData
                     (rePredictionResults gw (fst (filter_rows (blockedIpMap activeRules) stored))) \<noteq> None"
    using assms(2) job
    by (auto simp: reanalyze_def rePredictionResults_length transformPredictionData_def split: prod.splits)
  have none: "historicalResults = Some stored \<and> stored \<noteq> []
            \<and> select_active_rules rules_fault now store = Inr activeRules
            \<and> fst (filter_rows (blockedIpMap activeRules) stored) = []
            \<longrightarrow> reanalyze flows_fault rules_fault gw now store stored analysis_id'
                 = All_filtered (property_key analysis_id')"
    using assms(2) job
    by (auto simp: reanalyze_def split: prod.splits)
  show ?thesis using nf some none by blast
qed

text \<open>A job without flows is not found; the job of four flows gets the counts 4, 3 and 1.\<close>

theorem reanalyze_not_found_and_payload_witness:
  "truthy (Str ''job1'')
   \<and> getAnalysisResultsByJobId No_fault history = Inr (Some history)
   \<and> getAnalysisResultsByJobId No_fault [] = Inr (Some [])
   \<and> reanalyze No_fault No_fault labelling_gateway 5400000 [other_rule, expired_rule] [] (Str ''job1'')
       = Not_found_404
   \<and> map_option original_flow_count
       (payload_of (reanalyze No_fault No_fault labelling_gateway 5400000 [other_rule, expired_rule]
          history (Str ''job1''))) = Some 4
   \<and> map_option reanalyzed_flow_count
       (payload_of (reanalyze No_fault No_fault labelling_gateway 5400000 [other_rule, expired_rule]
          history (Str ''job1''))) = Some 3
   \<and> map_option (blockedCount \<circ> blockedData)
       (payload_of (reanalyze No_fault No_fault labelling_gateway 5400000 [other_rule, expired_rule]
          history (Str ''job1''))) = Some 1"
proof -
  have r1: "getAnalysisResultsByJobId No_fault history = Inr (Some history)"
    and r2: "getAnalysisResultsByJobId No_fault [] = Inr (Some [])"
    by (simp_all add: getAnalysisResultsByJobId_def)
  have t: "truthy (Str ''job1'')" by simp
  have ne: "history \<noteq> []" and n: "length history = 4" by (simp_all add: history_def)
  note w1 = reanalyze_not_found_and_payload [OF t r1, of No_fault labelling_gateway 5400000
      "[other_rule, expired_rule]" "Some [other_rule]"]
  note w2 = reanalyze_not_found_and_payload [OF t r2, of No_fault labelling_gateway 5400000
      "[other_rule, expired_rule]" "Some [other_rule]"]
  show ?thesis
    using w1 w2 r1 r2 ne n by (simp add: history_active history_partition transformBlockedData_def)
qed

end
